theory Spec2Isabelle
  imports Main "HOL-Library.Word"
begin

section \<open>Data model\<close>

text \<open>
  The queue of \<^verbatim>\<open>src/src/AVFramedQueue.cpp\<close> is a ring of frame pointers with two
  cursors. The C++ \<^verbatim>\<open>unsigned\<close> values (\<^verbatim>\<open>max\<close>, the loop counters, the result of
  \<^verbatim>\<open>getElements\<close>) are 32-bit words, so that every sum and difference wraps as it does
  in the program. The cursors \<^verbatim>\<open>front\<close> and \<^verbatim>\<open>rear\<close> are declared in a header that is not
  part of the sources at hand; they are \<^verbatim>\<open>unsigned\<close> here as well, which is the type in
  which the program computes every expression that mixes them with \<^verbatim>\<open>max\<close>.
\<close>

type_synonym unsigned = "32 word"

text \<open>
  Modelled from the spec: \<^verbatim>\<open>struct ConnectionData\<close> is declared in a header that is
  not part of the sources at hand; the spec gives its four integer fields.
\<close>

record ConnectionData =
  wFilterId :: int
  rFilterId :: int
  writerId :: int
  readerId :: int

text \<open>A \<^verbatim>\<open>Frame*\<close>: the null pointer or the address of a frame object on the heap.\<close>

type_synonym addr = nat

datatype ptr = NULL | Ptr addr

text \<open>
  What the program can do besides returning: \<^verbatim>\<open>% max\<close> with \<^verbatim>\<open>max == 0\<close> divides by
  zero, an index at or beyond the capacity of the \<^verbatim>\<open>frames\<close> array leaves the array,
  and a pointer that is neither null nor the address of a live object is deleted or
  dereferenced.
\<close>

datatype fault = DivisionByZero | OutOfBounds | InvalidPointer

text \<open>
  Modelled from the spec: the declarations of the classes \<^verbatim>\<open>AVFramedQueue\<close> and
  \<^verbatim>\<open>FrameQueue\<close> are in headers that are not part of the sources at hand. The members
  are those that \<^verbatim>\<open>AVFramedQueue.cpp\<close> reads and writes, which are the ones of the spec's
  data model. The array \<^verbatim>\<open>frames\<close> is a list whose length is the capacity of the array.
  The field \<^verbatim>\<open>max\<close> is named \<open>max_frames\<close>, since \<open>max\<close> is taken by the order library.
  \<^verbatim>\<open>extradata\<close> is a pointer to bytes that the queue only stores.
\<close>

record AVFramedQueue =
  connectionData :: ConnectionData
  max_frames :: unsigned
  front :: unsigned
  rear :: unsigned
  frames :: "ptr list"
  extradata :: ptr
  extradata_size :: int

section \<open>Operations of AVFramedQueue\<close>

text \<open>The read \<^verbatim>\<open>frames[i]\<close>.\<close>

definition frames_at :: "'a AVFramedQueue_scheme \<Rightarrow> unsigned \<Rightarrow> fault + ptr" where
  "frames_at q i =
     (if unat i < length (frames q) then Inr (frames q ! unat i) else Inl OutOfBounds)"

definition getRear :: "'a AVFramedQueue_scheme \<Rightarrow> fault + ptr" where
  "getRear q =
     (if max_frames q = 0 then Inl DivisionByZero
      else if (rear q + 1) mod max_frames q = front q then Inr NULL
      else frames_at q (rear q))"

definition getFront :: "'a AVFramedQueue_scheme \<Rightarrow> fault + ptr" where
  "getFront q =
     (if rear q = front q then Inr NULL
      else frames_at q (front q))"

text \<open>The two publishing operations return their \<^verbatim>\<open>int\<close> result and the updated queue.\<close>

definition addFrame :: "'a AVFramedQueue_scheme \<Rightarrow> fault + int \<times> 'a AVFramedQueue_scheme" where
  "addFrame q =
     (if max_frames q = 0 then Inl DivisionByZero
      else Inr (rFilterId (connectionData q), q\<lparr>rear := (rear q + 1) mod max_frames q\<rparr>))"

definition removeFrame :: "'a AVFramedQueue_scheme \<Rightarrow> fault + int \<times> 'a AVFramedQueue_scheme" where
  "removeFrame q =
     (if max_frames q = 0 then Inl DivisionByZero
      else Inr (wFilterId (connectionData q), q\<lparr>front := (front q + 1) mod max_frames q\<rparr>))"

definition flush :: "'a AVFramedQueue_scheme \<Rightarrow> fault + 'a AVFramedQueue_scheme" where
  "flush q =
     (if max_frames q = 0 then Inl DivisionByZero
      else Inr (q\<lparr>rear := (rear q + (max_frames q - 1)) mod max_frames q\<rparr>))"

text \<open>
  \<^verbatim>\<open>forceGetRear\<close> is a \<^verbatim>\<open>while\<close> loop around \<^verbatim>\<open>getRear\<close> and \<^verbatim>\<open>flush\<close> that the program does
  not bound; a run that never leaves the loop is the value \<open>None\<close>. The loop state is
  the queue and the debug messages written so far.
\<close>

definition discarded_msg :: string where
  "discarded_msg = ''Frame discarted by AVFramedQueue''"

partial_function (option) forceGetRear_loop ::
  "'a AVFramedQueue_scheme \<Rightarrow> string list
     \<Rightarrow> (fault + ptr \<times> 'a AVFramedQueue_scheme \<times> string list) option" where
  "forceGetRear_loop q out =
     (case getRear q of
        Inl e \<Rightarrow> Some (Inl e)
      | Inr frame \<Rightarrow>
          if frame = NULL then
            (case flush q of
               Inl e \<Rightarrow> Some (Inl e)
             | Inr q' \<Rightarrow> forceGetRear_loop q' (out @ [discarded_msg]))
          else Some (Inr (frame, q, out)))"

declare forceGetRear_loop.simps [code]

definition forceGetRear ::
  "'a AVFramedQueue_scheme \<Rightarrow> (fault + ptr \<times> 'a AVFramedQueue_scheme \<times> string list) option" where
  "forceGetRear q = forceGetRear_loop q []"

definition forceGetFront :: "'a AVFramedQueue_scheme \<Rightarrow> fault + ptr" where
  "forceGetFront q =
     (if max_frames q = 0 then Inl DivisionByZero
      else frames_at q ((front q + (max_frames q - 1)) mod max_frames q))"

definition getElements :: "'a AVFramedQueue_scheme \<Rightarrow> unsigned" where
  "getElements q =
     (if front q > rear q then max_frames q - front q + rear q else rear q - front q)"

section \<open>Frames and the heap\<close>

text \<open>
  Modelled from the spec: the enumerations of \<^verbatim>\<open>Types.hh\<close> are not part of the sources
  at hand; the spec lists their members. A C++ enumeration variable can hold values
  besides the listed ones (the \<^verbatim>\<open>default:\<close> and \<^verbatim>\<open>else\<close> branches of the two \<^verbatim>\<open>setup\<close>
  functions are there for them), which the last constructor of each type stands for.
\<close>

datatype VCodecType = H264 | H265 | VP8 | RAW | VCodecOther nat

datatype PixType = YUV420P | YUV422P | YUV444P | RGB24 | RGBA | P_NONE | PixOther nat

datatype ACodecType = OPUS | AAC | MP3 | PCM | PCMU | G711 | ACodecOther nat

datatype SampleFmt = U8 | S16 | FLT | U8P | S16P | FLTP | SampleFmtOther nat

text \<open>
  Modelled from the spec: the two default dimensions. The buffer sizes
  \<^verbatim>\<open>MAX_H264_OR_5_NAL_SIZE\<close> and \<^verbatim>\<open>LENGTH_VP8\<close> have no value in the spec or the sources
  and stay symbolic.
\<close>

definition DEFAULT_WIDTH :: nat where
  "DEFAULT_WIDTH = 1920"

definition DEFAULT_HEIGHT :: nat where
  "DEFAULT_HEIGHT = 1080"

datatype FrameSize = MAX_H264_OR_5_NAL_SIZE | LENGTH_VP8

text \<open>
  Modelled from the spec: the frame classes and their factories are declared in
  \<^verbatim>\<open>Frame.hh\<close>, \<^verbatim>\<open>VideoFrame.hh\<close> and \<^verbatim>\<open>AudioFrame.hh\<close>, which are not part of the sources
  at hand. A frame object records the factory that made it, with the factory's
  arguments, and its sequence number (set by \<^verbatim>\<open>FrameMock::createNew\<close>, 0 for the other
  factories). Every factory returns a new object.
\<close>

datatype FrameClass =
    FrameMock
  | InterleavedVideoFrame_len VCodecType FrameSize
  | InterleavedVideoFrame_dim VCodecType nat nat PixType
  | InterleavedAudioFrame unsigned unsigned unsigned ACodecType SampleFmt
  | PlanarAudioFrame unsigned unsigned unsigned ACodecType SampleFmt

record Frame =
  made_by :: FrameClass
  sequenceNumber :: nat

text \<open>
  The heap of frame objects: the address of an object is its position; a cell holds
  the object while it is live and \<open>None\<close> once it has been deleted. \<^verbatim>\<open>new\<close> appends a
  cell. \<^verbatim>\<open>delete\<close> does nothing on the null pointer, takes a live object off the heap,
  and is undefined on every other pointer.
\<close>

type_synonym heap = "Frame option list"

definition live :: "heap \<Rightarrow> addr \<Rightarrow> Frame option" where
  "live h a = (if a < length h then h ! a else None)"

definition new :: "heap \<Rightarrow> Frame \<Rightarrow> ptr \<times> heap" where
  "new h f = (Ptr (length h), h @ [Some f])"

definition delete :: "heap \<Rightarrow> ptr \<Rightarrow> fault + heap" where
  "delete h p =
     (case p of
        NULL \<Rightarrow> Inr h
      | Ptr a \<Rightarrow> (case live h a of None \<Rightarrow> Inl InvalidPointer | Some f \<Rightarrow> Inr (h[a := None])))"

text \<open>
  Modelled from the spec: the accessors of the sequence number of a frame, declared in
  \<^verbatim>\<open>Frame.hh\<close>; they read and write the object at the address, which has to be live.
\<close>

definition setSequenceNumber :: "heap \<Rightarrow> addr \<Rightarrow> nat \<Rightarrow> fault + heap" where
  "setSequenceNumber h a n =
     (case live h a of
        None \<Rightarrow> Inl InvalidPointer
      | Some f \<Rightarrow> Inr (h[a := Some (f\<lparr>sequenceNumber := n\<rparr>)]))"

definition getSequenceNumber :: "heap \<Rightarrow> addr \<Rightarrow> fault + nat" where
  "getSequenceNumber h a =
     (case live h a of None \<Rightarrow> Inl InvalidPointer | Some f \<Rightarrow> Inr (sequenceNumber f))"

text \<open>
  The loop \<^verbatim>\<open>for (unsigned i = 0; i < max; i++) frames[i] = ...::createNew(...)\<close>, which
  the sources write once for each kind of frame: \<open>mk i\<close> is the object made in round
  \<open>i\<close>, \<open>n\<close> is \<^verbatim>\<open>max\<close>, \<open>arr\<close> the array. A round with \<open>i\<close> at or beyond the
  capacity of the array writes outside it.
\<close>

function fill_frames ::
  "(unsigned \<Rightarrow> Frame) \<Rightarrow> unsigned \<Rightarrow> unsigned \<Rightarrow> ptr list \<Rightarrow> heap \<Rightarrow> fault + ptr list \<times> heap" where
  "fill_frames mk i n arr h =
     (if i < n then
        (if unat i < length arr then
           (case new h (mk i) of (p, h') \<Rightarrow> fill_frames mk (i + 1) n (arr[unat i := p]) h')
         else Inl OutOfBounds)
      else Inr (arr, h))"
  by pat_completeness auto
termination
proof (relation "measure (\<lambda>(mk, i, n, arr, h). unat n - unat i)")
  show "wf (measure (\<lambda>(mk, i, n, arr, h). unat n - unat i))"
    by simp
next
  fix mk :: "unsigned \<Rightarrow> Frame" and i n :: unsigned and arr :: "ptr list" and h :: heap
    and x :: "ptr \<times> heap" and p :: ptr and h' :: heap
  assume "i < n"
  then have "unat n - unat (i + 1) < unat n - unat i"
    by unat_arith
  then show "((mk, i + 1, n, arr[unat i := p], h'), (mk, i, n, arr, h))
      \<in> measure (\<lambda>(mk, i, n, arr, h). unat n - unat i)"
    by simp
qed

declare fill_frames.simps [simp del]

text \<open>
  The destructor \<^verbatim>\<open>~AVFramedQueue\<close>: \<^verbatim>\<open>for (unsigned i = 0; i < max; i++) delete frames[i]\<close>.
  It deletes whatever the first \<^verbatim>\<open>max\<close> cells of the array hold, whether or not \<^verbatim>\<open>setup\<close>
  has assigned them.
\<close>

function delete_frames :: "unsigned \<Rightarrow> unsigned \<Rightarrow> ptr list \<Rightarrow> heap \<Rightarrow> fault + heap" where
  "delete_frames i n arr h =
     (if i < n then
        (if unat i < length arr then
           (case delete h (arr ! unat i) of
              Inl e \<Rightarrow> Inl e
            | Inr h' \<Rightarrow> delete_frames (i + 1) n arr h')
         else Inl OutOfBounds)
      else Inr h)"
  by pat_completeness auto
termination
proof (relation "measure (\<lambda>(i, n, arr, h). unat n - unat i)")
  show "wf (measure (\<lambda>(i, n, arr, h). unat n - unat i))"
    by simp
next
  fix i n :: unsigned and arr :: "ptr list" and h h' :: heap
  assume "i < n"
  then have "unat n - unat (i + 1) < unat n - unat i"
    by unat_arith
  then show "((i + 1, n, arr, h'), (i, n, arr, h)) \<in> measure (\<lambda>(i, n, arr, h). unat n - unat i)"
    by simp
qed

declare delete_frames.simps [simp del]

definition AVFramedQueue_dtor :: "'a AVFramedQueue_scheme \<Rightarrow> heap \<Rightarrow> fault + heap" where
  "AVFramedQueue_dtor q h = delete_frames 0 (max_frames q) (frames q) h"

section \<open>The constructors and the queue of the unit tests\<close>

text \<open>
  A constructor receives the storage of the new object, \<open>mem\<close>, and sets the members of
  its initialiser list; the other members keep what the storage held, so nothing is
  assumed about them. This matters for the array \<^verbatim>\<open>frames\<close>, which only \<^verbatim>\<open>setup\<close> (or
  \<^verbatim>\<open>config\<close>) fills.
\<close>

text \<open>
  Modelled from the spec: the constructor of the base class \<^verbatim>\<open>FrameQueue\<close>, which
  \<^verbatim>\<open>AVFramedQueue::AVFramedQueue\<close> calls with \<^verbatim>\<open>cData\<close>, is in a header that is not part of
  the sources at hand; a new queue is empty, both cursors at slot 0.
\<close>

definition AVFramedQueue_ctor ::
  "ConnectionData \<Rightarrow> unsigned \<Rightarrow> 'a AVFramedQueue_scheme \<Rightarrow> 'a AVFramedQueue_scheme" where
  "AVFramedQueue_ctor cData maxFrames mem =
     mem\<lparr>connectionData := cData, max_frames := maxFrames, front := 0, rear := 0\<rparr>"

text \<open>\<^verbatim>\<open>AVFramedQueueMock\<close> of \<^verbatim>\<open>src/unitTests/FilterMockup.hh\<close>: the constructor, then \<^verbatim>\<open>config\<close>.\<close>

definition config :: "AVFramedQueue \<Rightarrow> heap \<Rightarrow> fault + bool \<times> AVFramedQueue \<times> heap" where
  "config q h =
     (case fill_frames (\<lambda>i. \<lparr>made_by = FrameMock, sequenceNumber = unat (i + 1)\<rparr>)
             0 (max_frames q) (frames q) h of
        Inl e \<Rightarrow> Inl e
      | Inr (arr, h') \<Rightarrow> Inr (True, q\<lparr>frames := arr\<rparr>, h'))"

definition AVFramedQueueMock ::
  "ConnectionData \<Rightarrow> unsigned \<Rightarrow> AVFramedQueue \<Rightarrow> heap \<Rightarrow> fault + AVFramedQueue \<times> heap" where
  "AVFramedQueueMock cData max_arg mem h =
     (case config (AVFramedQueue_ctor cData max_arg mem) h of
        Inl e \<Rightarrow> Inl e
      | Inr (ok, q, h') \<Rightarrow> Inr (q, h'))"

section \<open>VideoFrameQueue\<close>

text \<open>The members that the constructor of \<^verbatim>\<open>VideoFrameQueue\<close> initialises besides those of
  its base class.\<close>

record VideoFrameQueue = AVFramedQueue +
  codec :: VCodecType
  pixelFormat :: PixType

definition VideoFrameQueue_ctor ::
  "ConnectionData \<Rightarrow> VCodecType \<Rightarrow> unsigned \<Rightarrow> PixType \<Rightarrow> VideoFrameQueue \<Rightarrow> VideoFrameQueue" where
  "VideoFrameQueue_ctor cData codec_arg maxFrames pixelFormat_arg mem =
     (AVFramedQueue_ctor cData maxFrames mem)
       \<lparr>VideoFrameQueue.codec := codec_arg, pixelFormat := pixelFormat_arg\<rparr>"

text \<open>
  \<^verbatim>\<open>setup\<close> returns its \<^verbatim>\<open>bool\<close>, the queue, the heap and the error messages written.
  \<open>video_frames\<close> is the loop of one \<^verbatim>\<open>case\<close> followed by \<^verbatim>\<open>break\<close> and the final
  \<^verbatim>\<open>return true\<close>.
\<close>

definition video_frames ::
  "FrameClass \<Rightarrow> VideoFrameQueue \<Rightarrow> heap \<Rightarrow> fault + bool \<times> VideoFrameQueue \<times> heap \<times> string list" where
  "video_frames c q h =
     (case fill_frames (\<lambda>i. \<lparr>made_by = c, sequenceNumber = 0\<rparr>) 0 (max_frames q) (frames q) h of
        Inl e \<Rightarrow> Inl e
      | Inr (arr, h') \<Rightarrow> Inr (True, q\<lparr>frames := arr\<rparr>, h', []))"

definition VideoFrameQueue_setup ::
  "VideoFrameQueue \<Rightarrow> heap \<Rightarrow> fault + bool \<times> VideoFrameQueue \<times> heap \<times> string list" where
  "VideoFrameQueue_setup q h =
     (case VideoFrameQueue.codec q of
        H264 \<Rightarrow>
          video_frames (InterleavedVideoFrame_len (VideoFrameQueue.codec q) MAX_H264_OR_5_NAL_SIZE) q h
      | H265 \<Rightarrow>
          video_frames (InterleavedVideoFrame_len (VideoFrameQueue.codec q) MAX_H264_OR_5_NAL_SIZE) q h
      | VP8 \<Rightarrow>
          video_frames (InterleavedVideoFrame_len (VideoFrameQueue.codec q) LENGTH_VP8) q h
      | RAW \<Rightarrow>
          if pixelFormat q = P_NONE then Inr (False, q, h, [''No pixel fromat defined''])
          else video_frames
                 (InterleavedVideoFrame_dim (VideoFrameQueue.codec q) DEFAULT_WIDTH DEFAULT_HEIGHT
                    (pixelFormat q)) q h
      | VCodecOther n \<Rightarrow> Inr (False, q, h, [''[Video Frame Queue] Codec not supported!'']))"

text \<open>
  \<^verbatim>\<open>createNew\<close> returns the pointer to the new queue, here the queue itself, or \<open>None\<close>
  for \<^verbatim>\<open>NULL\<close>. When \<^verbatim>\<open>setup\<close> has failed, \<^verbatim>\<open>delete q\<close> runs the destructor before
  \<^verbatim>\<open>return NULL\<close>.
\<close>

definition VideoFrameQueue_createNew ::
  "ConnectionData \<Rightarrow> VCodecType \<Rightarrow> unsigned \<Rightarrow> PixType \<Rightarrow> ptr \<Rightarrow> int \<Rightarrow> VideoFrameQueue \<Rightarrow> heap
     \<Rightarrow> fault + VideoFrameQueue option \<times> heap \<times> string list" where
  "VideoFrameQueue_createNew cData codec_arg maxFrames pixelFormat_arg extradata_arg
       extradata_size_arg mem h =
     (case VideoFrameQueue_setup (VideoFrameQueue_ctor cData codec_arg maxFrames pixelFormat_arg mem) h of
        Inl e \<Rightarrow> Inl e
      | Inr (ok, q, h', msgs) \<Rightarrow>
          if \<not> ok then
            (case AVFramedQueue_dtor q h' of
               Inl e \<Rightarrow> Inl e
             | Inr h'' \<Rightarrow> Inr (None, h'', msgs @ [''VideoFrameQueue setup error!'']))
          else Inr (Some (q\<lparr>extradata := extradata_arg, extradata_size := extradata_size_arg\<rparr>),
                    h', msgs))"

section \<open>AudioFrameQueue\<close>

text \<open>The members that the constructor of \<^verbatim>\<open>AudioFrameQueue\<close> initialises besides those of
  its base class.\<close>

record AudioFrameQueue = AVFramedQueue +
  codec :: ACodecType
  sampleFormat :: SampleFmt
  sampleRate :: unsigned
  channels :: unsigned

definition AudioFrameQueue_ctor ::
  "ConnectionData \<Rightarrow> ACodecType \<Rightarrow> unsigned \<Rightarrow> SampleFmt \<Rightarrow> unsigned \<Rightarrow> unsigned
     \<Rightarrow> AudioFrameQueue \<Rightarrow> AudioFrameQueue" where
  "AudioFrameQueue_ctor cData codec_arg maxFrames sFmt sampleRate_arg channels_arg mem =
     (AVFramedQueue_ctor cData maxFrames mem)
       \<lparr>AudioFrameQueue.codec := codec_arg, sampleFormat := sFmt,
        sampleRate := sampleRate_arg, channels := channels_arg\<rparr>"

text \<open>
  \<^verbatim>\<open>AudioFrame::getMaxSamples\<close> is not part of the sources at hand: it is the parameter
  \<open>getMaxSamples\<close>. \<open>audio_frames\<close> is the loop of one branch followed by \<^verbatim>\<open>break\<close> and
  the final \<^verbatim>\<open>return true\<close>; \<open>planar\<close> selects \<^verbatim>\<open>PlanarAudioFrame::createNew\<close>.
\<close>

definition audio_frames ::
  "(unsigned \<Rightarrow> unsigned) \<Rightarrow> bool \<Rightarrow> AudioFrameQueue \<Rightarrow> heap
     \<Rightarrow> fault + bool \<times> AudioFrameQueue \<times> heap \<times> string list" where
  "audio_frames getMaxSamples planar q h =
     (case fill_frames
             (\<lambda>i. \<lparr>made_by =
                      (if planar then PlanarAudioFrame else InterleavedAudioFrame)
                        (channels q) (sampleRate q) (getMaxSamples (sampleRate q))
                        (AudioFrameQueue.codec q) (sampleFormat q),
                   sequenceNumber = 0\<rparr>)
             0 (max_frames q) (frames q) h of
        Inl e \<Rightarrow> Inl e
      | Inr (arr, h') \<Rightarrow> Inr (True, q\<lparr>frames := arr\<rparr>, h', []))"

definition pcm_frames ::
  "(unsigned \<Rightarrow> unsigned) \<Rightarrow> AudioFrameQueue \<Rightarrow> heap
     \<Rightarrow> fault + bool \<times> AudioFrameQueue \<times> heap \<times> string list" where
  "pcm_frames getMaxSamples q h =
     (if sampleFormat q = U8 \<or> sampleFormat q = S16 \<or> sampleFormat q = FLT then
        audio_frames getMaxSamples False q h
      else if sampleFormat q = U8P \<or> sampleFormat q = S16P \<or> sampleFormat q = FLTP then
        audio_frames getMaxSamples True q h
      else Inr (False, q, h, [''[Audio Frame Queue] Sample format not supported!'']))"

definition AudioFrameQueue_setup ::
  "(unsigned \<Rightarrow> unsigned) \<Rightarrow> AudioFrameQueue \<Rightarrow> heap
     \<Rightarrow> fault + bool \<times> AudioFrameQueue \<times> heap \<times> string list" where
  "AudioFrameQueue_setup getMaxSamples q h =
     (case AudioFrameQueue.codec q of
        OPUS \<Rightarrow> audio_frames getMaxSamples False (q\<lparr>sampleFormat := S16\<rparr>) h
      | AAC \<Rightarrow> audio_frames getMaxSamples False (q\<lparr>sampleFormat := S16\<rparr>) h
      | MP3 \<Rightarrow> audio_frames getMaxSamples False (q\<lparr>sampleFormat := S16\<rparr>) h
      | PCMU \<Rightarrow> pcm_frames getMaxSamples q h
      | PCM \<Rightarrow> pcm_frames getMaxSamples q h
      | G711 \<Rightarrow>
          audio_frames getMaxSamples False
            (q\<lparr>channels := 1, sampleRate := 8000, sampleFormat := U8\<rparr>) h
      | ACodecOther n \<Rightarrow> Inr (False, q, h, [''[Audio Frame Queue] Codec not supported!'']))"

definition AudioFrameQueue_createNew ::
  "(unsigned \<Rightarrow> unsigned) \<Rightarrow> ConnectionData \<Rightarrow> ACodecType \<Rightarrow> unsigned \<Rightarrow> unsigned \<Rightarrow> unsigned
     \<Rightarrow> SampleFmt \<Rightarrow> ptr \<Rightarrow> int \<Rightarrow> AudioFrameQueue \<Rightarrow> heap
     \<Rightarrow> fault + AudioFrameQueue option \<times> heap \<times> string list" where
  "AudioFrameQueue_createNew getMaxSamples cData codec_arg maxFrames sampleRate_arg channels_arg
       sFmt extradata_arg extradata_size_arg mem h =
     (case AudioFrameQueue_setup getMaxSamples
             (AudioFrameQueue_ctor cData codec_arg maxFrames sFmt sampleRate_arg channels_arg mem) h of
        Inl e \<Rightarrow> Inl e
      | Inr (ok, q, h', msgs) \<Rightarrow>
          if \<not> ok then
            (case AVFramedQueue_dtor q h' of
               Inl e \<Rightarrow> Inl e
             | Inr h'' \<Rightarrow> Inr (None, h'', msgs @ [''AudioFrameQueue setup error!'']))
          else Inr (Some (q\<lparr>extradata := extradata_arg, extradata_size := extradata_size_arg\<rparr>),
                    h', msgs))"

section \<open>Notions used to state the properties\<close>

text \<open>
  The invariant of the data model: at least two slots, both cursors inside the ring,
  and the first \<^verbatim>\<open>max\<close> cells of the array hold frames allocated by \<^verbatim>\<open>setup\<close>.
\<close>

definition queue_inv :: "'a AVFramedQueue_scheme \<Rightarrow> bool" where
  "queue_inv q \<longleftrightarrow>
     2 \<le> max_frames q \<and> front q < max_frames q \<and> rear q < max_frames q
     \<and> unat (max_frames q) \<le> length (frames q)
     \<and> (\<forall>i < unat (max_frames q). frames q ! i \<noteq> NULL)"

text \<open>
  The producer/consumer protocol: \<^verbatim>\<open>addFrame\<close> only after \<^verbatim>\<open>getRear\<close> has returned a frame,
  \<^verbatim>\<open>removeFrame\<close> only after \<^verbatim>\<open>getFront\<close> has. \<open>protocol q0 q\<close>: the state \<open>q\<close> is reached
  from \<open>q0\<close> by such steps.
\<close>

inductive protocol :: "'a AVFramedQueue_scheme \<Rightarrow> 'a AVFramedQueue_scheme \<Rightarrow> bool"
  for q0 :: "'a AVFramedQueue_scheme" where
  start: "protocol q0 q0"
| produce: "protocol q0 q \<Longrightarrow> getRear q = Inr (Ptr a) \<Longrightarrow> addFrame q = Inr (r, q')
     \<Longrightarrow> protocol q0 q'"
| consume: "protocol q0 q \<Longrightarrow> getFront q = Inr (Ptr a) \<Longrightarrow> removeFrame q = Inr (r, q')
     \<Longrightarrow> protocol q0 q'"

code_pred protocol .

text \<open>
  The contents of a queue, oldest first: the sequence numbers a consumer reads when it
  empties the queue with \<^verbatim>\<open>getFront\<close>, \<^verbatim>\<open>getSequenceNumber\<close> and \<^verbatim>\<open>removeFrame\<close>. The first
  argument bounds the number of rounds; \<^verbatim>\<open>max\<close> rounds are enough for a ring of \<^verbatim>\<open>max\<close>
  slots. The result is \<open>None\<close> when a call faults or the rounds do not empty the queue.
\<close>

fun received :: "nat \<Rightarrow> 'a AVFramedQueue_scheme \<Rightarrow> heap \<Rightarrow> nat list option" where
  "received 0 q h = (if getFront q = Inr NULL then Some [] else None)"
| "received (Suc n) q h =
     (case getFront q of
        Inl e \<Rightarrow> None
      | Inr NULL \<Rightarrow> Some []
      | Inr (Ptr a) \<Rightarrow>
          (case getSequenceNumber h a of
             Inl e \<Rightarrow> None
           | Inr s \<Rightarrow>
               (case removeFrame q of
                  Inl e \<Rightarrow> None
                | Inr (r, q') \<Rightarrow> map_option ((#) s) (received n q' h))))"

definition contents :: "'a AVFramedQueue_scheme \<Rightarrow> heap \<Rightarrow> nat list option" where
  "contents q h = received (unat (max_frames q)) q h"

text \<open>Concrete values for the scenarios: a connection, and the storage of a new queue
  object whose array has room for eight frames.\<close>

definition example_cData :: ConnectionData where
  "example_cData = \<lparr>wFilterId = 1, rFilterId = 2, writerId = 3, readerId = 4\<rparr>"

definition example_mem :: AVFramedQueue where
  "example_mem =
     \<lparr>connectionData = \<lparr>wFilterId = 0, rFilterId = 0, writerId = 0, readerId = 0\<rparr>,
      max_frames = 0, front = 0, rear = 0,
      frames = [NULL, NULL, NULL, NULL, NULL, NULL, NULL, NULL],
      extradata = NULL, extradata_size = 0\<rparr>"

text \<open>The queue that \<^verbatim>\<open>AVFramedQueueMock(example_cData, 4)\<close> builds on an empty heap, and
  that heap afterwards.\<close>

definition mock4 :: AVFramedQueue where
  "mock4 =
     \<lparr>connectionData = example_cData, max_frames = 4, front = 0, rear = 0,
      frames = [Ptr 0, Ptr 1, Ptr 2, Ptr 3, NULL, NULL, NULL, NULL],
      extradata = NULL, extradata_size = 0\<rparr>"

definition mock4_heap :: heap where
  "mock4_heap =
     [Some \<lparr>made_by = FrameMock, sequenceNumber = 1\<rparr>,
      Some \<lparr>made_by = FrameMock, sequenceNumber = 2\<rparr>,
      Some \<lparr>made_by = FrameMock, sequenceNumber = 3\<rparr>,
      Some \<lparr>made_by = FrameMock, sequenceNumber = 4\<rparr>]"

text \<open>The same queue after one frame has been published, and after three: then it is
  full.\<close>

definition mock4_one :: AVFramedQueue where
  "mock4_one = mock4\<lparr>rear := 1\<rparr>"

definition mock4_full :: AVFramedQueue where
  "mock4_full = mock4\<lparr>rear := 3\<rparr>"

text \<open>
  A full queue of four slots whose oldest frame is in slot 1 and whose newest is in
  slot 3, so that \<open>rear\<close> has wrapped to slot 0, with a heap in which these frames carry
  the sequence numbers 1, 2, 3.
\<close>

definition mock4_wrapped :: AVFramedQueue where
  "mock4_wrapped = mock4\<lparr>front := 1, rear := 0\<rparr>"

definition mock4_wrapped_heap :: heap where
  "mock4_wrapped_heap =
     [Some \<lparr>made_by = FrameMock, sequenceNumber = 9\<rparr>,
      Some \<lparr>made_by = FrameMock, sequenceNumber = 1\<rparr>,
      Some \<lparr>made_by = FrameMock, sequenceNumber = 2\<rparr>,
      Some \<lparr>made_by = FrameMock, sequenceNumber = 3\<rparr>]"

text \<open>The storage of a new video queue object, with the array of \<open>example_mem\<close>.\<close>

definition example_video_mem :: VideoFrameQueue where
  "example_video_mem =
     \<lparr>connectionData = \<lparr>wFilterId = 0, rFilterId = 0, writerId = 0, readerId = 0\<rparr>,
      max_frames = 0, front = 0, rear = 0,
      frames = [NULL, NULL, NULL, NULL, NULL, NULL, NULL, NULL],
      extradata = NULL, extradata_size = 0,
      VideoFrameQueue.codec = H264, pixelFormat = P_NONE\<rparr>"

text \<open>The same storage for a video queue, except that the first cell of the array
  holds a pointer that is not null and is not the address of a frame.\<close>

definition stale_video_mem :: VideoFrameQueue where
  "stale_video_mem = example_video_mem\<lparr>frames := (frames example_video_mem)[0 := Ptr 7]\<rparr>"

text \<open>The storage of a new audio queue object, with the array of \<open>example_mem\<close>.\<close>

definition example_audio_mem :: AudioFrameQueue where
  "example_audio_mem =
     \<lparr>connectionData = \<lparr>wFilterId = 0, rFilterId = 0, writerId = 0, readerId = 0\<rparr>,
      max_frames = 0, front = 0, rear = 0,
      frames = [NULL, NULL, NULL, NULL, NULL, NULL, NULL, NULL],
      extradata = NULL, extradata_size = 0,
      AudioFrameQueue.codec = PCM, sampleFormat = U8, sampleRate = 0, channels = 0\<rparr>"

section \<open>Arithmetic of the cursors\<close>

text \<open>
  One step forward and one step back in a ring of \<open>m\<close> slots, on 32-bit words. The step
  back, \<^verbatim>\<open>(r + (max - 1)) % max\<close>, is the predecessor as long as the sum does not wrap,
  which \<open>m \<le> 2 ^ 31\<close> guarantees.
\<close>

lemma succ_mod:
  fixes r m :: unsigned
  assumes "r < m"
  shows "(r + 1) mod m = (if r + 1 = m then 0 else r + 1)"
proof (cases "r + 1 = m")
  case True
  then show ?thesis by simp
next
  case False
  with assms have "r + 1 < m" by unat_arith
  then show ?thesis using False by (simp add: mod_word_less)
qed

lemma word_pos:
  fixes r m :: unsigned
  assumes "r < m"
  shows "m \<noteq> 0" and "0 < m"
proof -
  show "m \<noteq> 0"
    using assms by (metis word_not_simps(1))
  then show "0 < m"
    by (simp add: word_greater_zero_iff)
qed

lemma succ_mod_less:
  fixes r m :: unsigned
  assumes "r < m"
  shows "(r + 1) mod m < m"
  using word_pos(2) [OF assms] by (rule word_mod_less_divisor)

lemma succ_no_wrap:
  fixes r m :: unsigned
  assumes "r < m"
  shows "unat (r + 1) = unat r + 1"
  using assms by unat_arith

lemma succ_mod_uint:
  fixes r m :: unsigned
  assumes "r < m"
  shows "uint ((r + 1) mod m) = (uint r + 1) mod uint m"
proof -
  have "uint (r + 1) = uint r + 1"
    using succ_no_wrap [OF assms] by (simp only: uint_nat)
  then show ?thesis
    by (simp add: uint_mod)
qed

lemma pred_mod:
  fixes r m :: unsigned
  assumes "r < m" and "m \<le> 2 ^ 31"
  shows "(r + (m - 1)) mod m = (if r = 0 then m - 1 else r - 1)"
proof (cases "r = 0")
  case True
  with assms have "m - 1 < m" by unat_arith
  then show ?thesis using True by (simp add: mod_word_less)
next
  case False
  have m31: "unat m \<le> 2 ^ 31"
    using assms(2) by (simp add: word_le_nat_alt)
  have rm: "unat r < unat m"
    using assms(1) by (simp add: word_less_nat_alt)
  have r0: "0 < unat r"
    using False by (simp add: unat_gt_0)
  have m1: "unat (m - 1) = unat m - 1"
    using word_pos(1) [OF assms(1)] by (rule unat_minus_one)
  have "unat r + unat (m - 1) < 2 ^ LENGTH(32)"
    using m31 rm m1 by simp
  then have s: "unat (r + (m - 1)) = unat r + unat (m - 1)"
    by (rule unat_add_lem [THEN iffD1])
  have "unat ((r + (m - 1)) mod m) = ((unat r - 1) + unat m) mod unat m"
    using r0 rm by (simp add: unat_mod s m1)
  also have "\<dots> = unat r - 1"
    using rm by simp
  also have "\<dots> = unat (r - 1)"
    using False by (rule unat_minus_one [symmetric])
  finally have "(r + (m - 1)) mod m = r - 1"
    by (simp add: word_unat_eq_iff)
  then show ?thesis using False by simp
qed

lemma pred_succ_mod:
  fixes r m :: unsigned
  assumes "r < m" and "m \<le> 2 ^ 31"
  shows "((r + 1) mod m + (m - 1)) mod m = r"
proof (cases "r + 1 = m")
  case True
  then have "m - 1 = r" by auto
  then show ?thesis
    using pred_mod [OF succ_mod_less [OF assms(1)] assms(2)] True by simp
next
  case False
  have "unat (r + 1) = unat r + 1"
    by (rule succ_no_wrap [OF assms(1)])
  then have "r + 1 \<noteq> 0"
    by (metis Suc_eq_plus1 nat.distinct(1) unat_0 add.commute)
  then show ?thesis
    using pred_mod [OF succ_mod_less [OF assms(1)] assms(2)] False
    by (simp add: succ_mod [OF assms(1)])
qed

lemma succ_pred_mod:
  fixes r m :: unsigned
  assumes "r < m" and "m \<le> 2 ^ 31"
  shows "((r + (m - 1)) mod m + 1) mod m = r" and "(r + (m - 1)) mod m < m"
proof -
  have lt: "(r + (m - 1)) mod m < m"
    using word_pos(2) [OF assms(1)] by (rule word_mod_less_divisor)
  then show "(r + (m - 1)) mod m < m" .
  show "((r + (m - 1)) mod m + 1) mod m = r"
  proof (cases "r = 0")
    case True
    then show ?thesis
      using pred_mod [OF assms] by simp
  next
    case False
    then show ?thesis
      using pred_mod [OF assms] assms(1) by (simp add: mod_word_less)
  qed
qed

lemma elements_unat:
  fixes f r m :: unsigned
  assumes "f < m" "r < m"
  shows "unat (if f > r then m - f + r else r - f)
           = (if unat f > unat r then unat m - unat f + unat r else unat r - unat f)"
proof (cases "f > r")
  case True
  have fm: "unat f < unat m" and rf: "unat r < unat f"
    using assms True by (simp_all add: word_less_nat_alt)
  have a: "unat (m - f) = unat m - unat f"
    using assms(1) by (simp add: unat_sub)
  have "unat m < 2 ^ LENGTH(32)"
    by (rule unsigned_less)
  then have "unat (m - f) + unat r < 2 ^ LENGTH(32)"
    using a fm rf by linarith
  then have "unat (m - f + r) = unat (m - f) + unat r"
    by (rule unat_add_lem [THEN iffD1])
  then show ?thesis using True a rf by simp
next
  case False
  then have "f \<le> r" by simp
  then have "unat (r - f) = unat r - unat f"
    by (rule unat_sub)
  moreover have "\<not> unat r < unat f"
    using False by (simp add: word_less_nat_alt)
  ultimately show ?thesis using False by simp
qed

lemma elements_uint:
  fixes f r m :: unsigned
  assumes "f < m" "r < m"
  shows "uint (if f > r then m - f + r else r - f) = (uint r - uint f) mod uint m"
proof -
  let ?e = "if f > r then m - f + r else r - f"
  have fm: "unat f < unat m" and rm: "unat r < unat m"
    using assms by (simp_all add: word_less_nat_alt)
  have e: "int (unat ?e) = (if unat f > unat r then int (unat m) - int (unat f) + int (unat r)
                            else int (unat r) - int (unat f))"
    using fm rm by (simp add: elements_unat [OF assms])
  have "(int (unat r) - int (unat f)) mod int (unat m)
          = (if unat f > unat r then int (unat m) - int (unat f) + int (unat r)
             else int (unat r) - int (unat f))"
  proof (cases "unat f > unat r")
    case True
    have "(int (unat r) - int (unat f)) mod int (unat m)
            = (int (unat r) - int (unat f) + int (unat m)) mod int (unat m)"
      by simp
    also have "\<dots> = int (unat r) - int (unat f) + int (unat m)"
      using True fm rm by (intro mod_pos_pos_trivial) linarith+
    finally show ?thesis using True by simp
  next
    case False
    have "(int (unat r) - int (unat f)) mod int (unat m) = int (unat r) - int (unat f)"
      using False fm rm by (intro mod_pos_pos_trivial) linarith+
    then show ?thesis using False by simp
  qed
  with e show ?thesis
    by (simp only: uint_nat)
qed

lemma elements_le:
  fixes f r m :: unsigned
  assumes "f < m" "r < m"
  shows "(if f > r then m - f + r else r - f) \<le> m - 1"
proof -
  have fm: "unat f < unat m" and rm: "unat r < unat m"
    using assms by (simp_all add: word_less_nat_alt)
  have "unat (m - 1) = unat m - 1"
    using word_pos(1) [OF assms(1)] by (rule unat_minus_one)
  moreover have "(if unat f > unat r then unat m - unat f + unat r else unat r - unat f)
      \<le> unat m - 1"
    using fm rm by (cases "unat f > unat r") simp_all
  ultimately show ?thesis
    by (simp only: word_le_nat_alt elements_unat [OF assms])
qed

lemma succ_mod_inj:
  fixes p r m :: unsigned
  assumes "p < m" and "r < m" and "(p + 1) mod m = (r + 1) mod m"
  shows "p = r"
proof -
  have sp: "unat (p + 1) = unat p + 1" and sr: "unat (r + 1) = unat r + 1"
    using assms(1,2) by (simp_all add: succ_no_wrap)
  have np: "p + 1 \<noteq> 0" and nr: "r + 1 \<noteq> 0"
    using sp sr by (metis Suc_eq_plus1 nat.distinct(1) unat_0 add.commute)+
  show ?thesis
  proof (cases "p + 1 = m")
    case True
    then have "(r + 1) mod m = 0"
      using assms(3) by simp
    then have "r + 1 = m"
      using nr by (simp add: succ_mod [OF assms(2)] split: if_splits)
    with True show ?thesis
      by (metis add_right_cancel)
  next
    case False
    then have "(r + 1) mod m = p + 1"
      using assms(3) by (simp add: succ_mod [OF assms(1)])
    then have "r + 1 = p + 1"
      using np by (simp add: succ_mod [OF assms(2)] split: if_splits)
    then show ?thesis by simp
  qed
qed

lemma flush_moves:
  fixes r m :: unsigned
  assumes "r < m" and "2 \<le> m"
  shows "(r + (m - 1)) mod m \<noteq> r"
proof
  assume eq: "(r + (m - 1)) mod m = r"
  define N :: nat where "N = 2 ^ LENGTH(32)"
  define R where "R = unat r"
  define M where "M = unat m"
  have m2: "2 \<le> M"
    using assms(2) by (simp add: word_le_nat_alt M_def)
  have rm: "R < M"
    using assms(1) by (simp add: word_less_nat_alt R_def M_def)
  have mb: "M < N"
    unfolding M_def N_def by (rule unsigned_less)
  have m1: "unat (m - 1) = M - 1"
    unfolding M_def using word_pos(1) [OF assms(1)] by (rule unat_minus_one)
  have "unat (r + (m - 1)) = (unat r + unat (m - 1)) mod N"
    unfolding N_def by (rule unat_word_ariths(1))
  then have u: "unat (r + (m - 1)) = (R + (M - 1)) mod N"
    by (simp only: m1 R_def)
  from eq have "unat (r + (m - 1)) mod unat m = unat r"
    by (simp only: unat_mod [symmetric])
  then have k: "((R + (M - 1)) mod N) mod M = R"
    by (simp only: u R_def M_def)
  show False
  proof (cases "R + (M - 1) < N")
    case True
    then have t: "(R + (M - 1)) mod M = R"
      using k by simp
    show False
    proof (cases "R = 0")
      case True
      then have "(M - 1) mod M = 0"
        using t by simp
      then show False using m2 by simp
    next
      case False
      then have "R + (M - 1) = (R - 1) + M"
        using m2 by simp
      moreover have "((R - 1) + M) mod M = R - 1"
        using rm by simp
      ultimately have "(R + (M - 1)) mod M = R - 1"
        by (simp only:)
      then show False
        using False t by simp
    qed
  next
    case False
    have lt: "R + (M - 1) - N < N"
      using rm mb by simp
    have "(R + (M - 1)) mod N = (R + (M - 1) - N) mod N"
      using False by (simp add: le_mod_geq)
    then have "(R + (M - 1)) mod N = R + (M - 1) - N"
      using lt by simp
    moreover have "R + (M - 1) - N < M"
      using rm mb by simp
    ultimately have "R + (M - 1) - N = R"
      using k by simp
    then show False
      using False mb by simp
  qed
qed

lemma full_elements:
  fixes f r m :: unsigned
  assumes "r < m" and "2 \<le> m" and "(r + 1) mod m = f"
  shows "f < m" and "f \<noteq> r"
    and "unat (if f > r then m - f + r else r - f) = unat m - 1"
proof -
  have m2: "2 \<le> unat m"
    using assms(2) by (simp add: word_le_nat_alt)
  have rm: "unat r < unat m"
    using assms(1) by (simp add: word_less_nat_alt)
  show fm: "f < m"
    using succ_mod_less [OF assms(1)] assms(3) by simp
  have s: "unat (r + 1) = unat r + 1"
    by (rule succ_no_wrap [OF assms(1)])
  have f: "unat f = (if r + 1 = m then 0 else unat r + 1)"
    using assms(3) s by (auto simp: succ_mod [OF assms(1)])
  have e: "r + 1 = m \<longleftrightarrow> unat r + 1 = unat m"
    using s by (auto simp: word_unat_eq_iff)
  show "f \<noteq> r"
    using f e m2 by (auto simp: word_unat_eq_iff)
  show "unat (if f > r then m - f + r else r - f) = unat m - 1"
    unfolding elements_unat [OF fm assms(1)] using f e rm m2 by (auto split: if_splits)
qed

lemma flushed_elements:
  fixes f r m :: unsigned
  assumes "r < m" and "2 \<le> m" and "m \<le> 2 ^ 31" and "(r + 1) mod m = f"
  shows "unat (if f > (r + (m - 1)) mod m then m - f + (r + (m - 1)) mod m
               else (r + (m - 1)) mod m - f) = unat m - 2"
proof -
  let ?p = "(r + (m - 1)) mod m"
  have m2: "2 \<le> unat m"
    using assms(2) by (simp add: word_le_nat_alt)
  have rm: "unat r < unat m"
    using assms(1) by (simp add: word_less_nat_alt)
  have fm: "f < m"
    by (rule full_elements(1) [OF assms(1,2,4)])
  have pm: "?p < m"
    by (rule succ_pred_mod(2) [OF assms(1,3)])
  have s: "unat (r + 1) = unat r + 1"
    by (rule succ_no_wrap [OF assms(1)])
  have f: "unat f = (if r + 1 = m then 0 else unat r + 1)"
    using assms(4) s by (auto simp: succ_mod [OF assms(1)])
  have e: "r + 1 = m \<longleftrightarrow> unat r + 1 = unat m"
    using s by (auto simp: word_unat_eq_iff)
  have m1: "unat (m - 1) = unat m - 1"
    using word_pos(1) [OF assms(1)] by (rule unat_minus_one)
  have p: "unat ?p = (if r = 0 then unat m - 1 else unat r - 1)"
    using m1 by (auto simp: pred_mod [OF assms(1,3)] unat_minus_one)
  have z: "r = 0 \<longleftrightarrow> unat r = 0"
    by (simp add: unat_eq_zero)
  show ?thesis
    unfolding elements_unat [OF fm pm] using f e p z rm m2 by (auto split: if_splits)
qed

section \<open>Facts about the invariant\<close>

lemma frames_at_inv:
  assumes "queue_inv q" and "i < max_frames q"
  shows "\<exists>a. frames_at q i = Inr (Ptr a) \<and> frames q ! unat i = Ptr a"
proof -
  have "unat i < unat (max_frames q)"
    using assms(2) by (simp add: word_less_nat_alt)
  then have "unat i < length (frames q)" and "frames q ! unat i \<noteq> NULL"
    using assms(1) by (simp_all add: queue_inv_def)
  then show ?thesis
    by (cases "frames q ! unat i") (simp_all add: frames_at_def)
qed

lemma queue_inv_max: "queue_inv q \<Longrightarrow> max_frames q \<noteq> 0"
  by (auto simp: queue_inv_def)

lemma less_4_cases:
  fixes r :: unsigned
  assumes "r < 4"
  shows "r = 0 \<or> r = 1 \<or> r = 2 \<or> r = 3"
proof -
  have "unat r < 4"
    using assms by (simp add: word_less_nat_alt)
  then have "unat r = 0 \<or> unat r = 1 \<or> unat r = 2 \<or> unat r = 3"
    by arith
  then show ?thesis
    by (auto simp: word_unat_eq_iff)
qed

lemma mock4_built:
  "AVFramedQueueMock example_cData 4 example_mem [] = Inr (mock4, mock4_heap)"
  by (simp add: AVFramedQueueMock_def config_def AVFramedQueue_ctor_def example_mem_def
      fill_frames.simps new_def mock4_def mock4_heap_def)

lemma mock4_inv: "queue_inv mock4"
  by code_simp

lemma protocol_range:
  assumes "protocol q0 q" and "front q0 < max_frames q0" and "rear q0 < max_frames q0"
  shows "max_frames q = max_frames q0 \<and> front q < max_frames q \<and> rear q < max_frames q"
  using assms
proof (induction rule: protocol.induct)
  case start
  then show ?case by simp
next
  case (produce q a r q')
  then have *: "max_frames q = max_frames q0" "front q < max_frames q" "rear q < max_frames q"
    by blast+
  then have "max_frames q \<noteq> 0"
    by (metis word_pos(1))
  with produce.hyps(3) have "q' = q\<lparr>rear := (rear q + 1) mod max_frames q\<rparr>"
    by (simp add: addFrame_def)
  then show ?case
    using * succ_mod_less [OF *(3)] by simp
next
  case (consume q a r q')
  then have *: "max_frames q = max_frames q0" "front q < max_frames q" "rear q < max_frames q"
    by blast+
  then have "max_frames q \<noteq> 0"
    by (metis word_pos(1))
  with consume.hyps(3) have "q' = q\<lparr>front := (front q + 1) mod max_frames q\<rparr>"
    by (simp add: removeFrame_def)
  then show ?case
    using * succ_mod_less [OF *(2)] by simp
qed

lemma fill_frames_ok:
  "unat n \<le> length arr \<Longrightarrow>
     \<exists>arr' h'. fill_frames mk i n arr h = Inr (arr', h') \<and> length arr' = length arr"
proof (induction mk i n arr h rule: fill_frames.induct)
  case (1 mk i n arr h)
  show ?case
  proof (cases "i < n")
    case False
    then show ?thesis
      by (subst fill_frames.simps) simp
  next
    case True
    then have "unat i < unat n"
      by (simp add: word_less_nat_alt)
    with "1.prems" have b: "unat i < length arr"
      by simp
    obtain p h' where n: "new h (mk i) = (p, h')"
      by (cases "new h (mk i)")
    have "unat n \<le> length (arr[unat i := p])"
      using "1.prems" by simp
    from "1.IH" [OF True b n [symmetric] this]
    obtain arr' h'' where
      "fill_frames mk (i + 1) n (arr[unat i := p]) h' = Inr (arr', h'')"
      "length arr' = length (arr[unat i := p])"
      by blast
    then show ?thesis
      using True b n by (subst fill_frames.simps) simp
  qed
qed

text \<open>
  Why the invariant asks for two slots: in a ring of one slot the queue is always full,
  \<^verbatim>\<open>flush\<close> changes nothing, and the loop of \<^verbatim>\<open>forceGetRear\<close> never ends.
\<close>

lemma loop_single_slot:
  assumes "forceGetRear_loop q out = Some y"
  shows "\<not> (max_frames q = 1 \<and> front q = 0 \<and> rear q = 0)"
proof (rule forceGetRear_loop.raw_induct
    [where P = "\<lambda>q out y. \<not> (max_frames q = 1 \<and> front q = 0 \<and> rear q = 0)", OF _ assms])
  fix loop :: "'a AVFramedQueue_scheme \<Rightarrow> string list
      \<Rightarrow> (fault + ptr \<times> 'a AVFramedQueue_scheme \<times> string list) option"
    and q :: "'a AVFramedQueue_scheme" and out y
  assume IH: "\<And>q out y. loop q out = Some y
      \<Longrightarrow> \<not> (max_frames q = 1 \<and> front q = 0 \<and> rear q = 0)"
  assume body: "(case getRear q of
        Inl e \<Rightarrow> Some (Inl e)
      | Inr frame \<Rightarrow>
          if frame = NULL then
            (case flush q of
               Inl e \<Rightarrow> Some (Inl e)
             | Inr q' \<Rightarrow> loop q' (out @ [discarded_msg]))
          else Some (Inr (frame, q, out))) = Some y"
  show "\<not> (max_frames q = 1 \<and> front q = 0 \<and> rear q = 0)"
  proof
    assume c: "max_frames q = 1 \<and> front q = 0 \<and> rear q = 0"
    then have g: "getRear q = Inr NULL"
      by (simp add: getRear_def)
    have f: "flush q = Inr (q\<lparr>rear := 0\<rparr>)"
      using c by (simp add: flush_def)
    from body have "loop (q\<lparr>rear := 0\<rparr>) (out @ [discarded_msg]) = Some y"
      by (simp add: g f)
    from IH [OF this] show False
      using c by simp
  qed
qed

lemma forceGetRear_single_slot:
  assumes "max_frames q = 1" and "front q = 0" and "rear q = 0"
  shows "forceGetRear q = None"
proof (cases "forceGetRear_loop q []")
  case None
  then show ?thesis by (simp add: forceGetRear_def)
next
  case (Some y)
  from loop_single_slot [OF this] assms show ?thesis by simp
qed

text \<open>Facts about a ring of four slots and about the heap.\<close>

lemma contents_4:
  assumes "max_frames q = 4"
  shows "contents q h = received (Suc (Suc (Suc (Suc 0)))) q h"
proof -
  have "unat (max_frames q) = 4"
    using assms by simp
  moreover have "(4::nat) = Suc (Suc (Suc (Suc 0)))"
    by simp
  ultimately show ?thesis
    by (simp only: contents_def)
qed

lemma four_slots:
  assumes "queue_inv q" and "max_frames q = 4"
  shows "4 \<le> length (frames q)"
    and "\<exists>a0 a1 a2 a3. frames q ! 0 = Ptr a0 \<and> frames q ! 1 = Ptr a1
           \<and> frames q ! 2 = Ptr a2 \<and> frames q ! 3 = Ptr a3"
proof -
  show "4 \<le> length (frames q)"
    using assms by (simp add: queue_inv_def)
  have "\<And>i. i < 4 \<Longrightarrow> frames q ! i \<noteq> NULL"
    using assms by (simp add: queue_inv_def)
  then have nn: "\<And>i. i < 4 \<Longrightarrow> \<exists>a. frames q ! i = Ptr a"
    by (metis ptr.exhaust)
  from nn [of 0] nn [of 1] nn [of 2] nn [of 3]
  show "\<exists>a0 a1 a2 a3. frames q ! 0 = Ptr a0 \<and> frames q ! 1 = Ptr a1
           \<and> frames q ! 2 = Ptr a2 \<and> frames q ! 3 = Ptr a3"
    by auto
qed

lemma live_update:
  "live h a = Some f \<Longrightarrow> live (h[a := Some g]) b = (if b = a then Some g else live h b)"
  by (auto simp: live_def split: if_splits)

text \<open>
  The destructor leaves the heap as it is when the cells it visits hold null pointers,
  and faults when \<^verbatim>\<open>max\<close> exceeds the capacity of the array. So \<^verbatim>\<open>createNew\<close> returns null
  after a failed \<^verbatim>\<open>setup\<close> when the cells \<^verbatim>\<open>frames[0..max)\<close> of the new object are null
  pointers, and does not return when the array is shorter than \<^verbatim>\<open>maxFrames\<close>.
\<close>

lemma delete_frames_null:
  "unat n \<le> length arr \<Longrightarrow> \<forall>k < unat n. arr ! k = NULL \<Longrightarrow> delete_frames i n arr h = Inr h"
proof (induction i n arr h rule: delete_frames.induct)
  case (1 i n arr h)
  show ?case
  proof (cases "i < n")
    case False
    then show ?thesis
      by (subst delete_frames.simps) simp
  next
    case True
    then have b: "unat i < unat n"
      by (simp add: word_less_nat_alt)
    with "1.prems" have l: "unat i < length arr" and z: "arr ! unat i = NULL"
      by simp_all
    have d: "delete h (arr ! unat i) = Inr h"
      by (simp add: z delete_def)
    from "1.IH" [OF True l d "1.prems"]
    have "delete_frames (i + 1) n arr h = Inr h" .
    then show ?thesis
      using True l d by (subst delete_frames.simps) simp
  qed
qed

lemma delete_frames_overrun:
  "unat i \<le> length arr \<Longrightarrow> length arr < unat n \<Longrightarrow> \<exists>e. delete_frames i n arr h = Inl e"
proof (induction i n arr h rule: delete_frames.induct)
  case (1 i n arr h)
  from "1.prems" have "unat i < unat n"
    by simp
  then have lt: "i < n"
    by (simp add: word_less_nat_alt)
  show ?case
  proof (cases "unat i < length arr")
    case False
    then show ?thesis
      using lt by (subst delete_frames.simps) simp
  next
    case True
    show ?thesis
    proof (cases "delete h (arr ! unat i)")
      case (Inl e)
      then show ?thesis
        using lt True by (subst delete_frames.simps) simp
    next
      case (Inr h')
      have "unat (i + 1) \<le> length arr"
        using True succ_no_wrap [OF lt] by simp
      from "1.IH" [OF lt True Inr this "1.prems"(2)]
      obtain e where "delete_frames (i + 1) n arr h' = Inl e"
        by blast
      then show ?thesis
        using lt True Inr by (subst delete_frames.simps) simp
    qed
  qed
qed

lemma VideoFrameQueue_createNew_null_slots:
  assumes "unat maxFrames \<le> length (frames mem)"
    and "\<forall>k < unat maxFrames. frames mem ! k = NULL"
  shows "VideoFrameQueue_createNew cData RAW maxFrames P_NONE ed es mem h
       = Inr (None, h, [''No pixel fromat defined'', ''VideoFrameQueue setup error!''])"
    and "codec_arg \<notin> {H264, H265, VP8, RAW} \<Longrightarrow>
          VideoFrameQueue_createNew cData codec_arg maxFrames pf ed es mem h
            = Inr (None, h, [''[Video Frame Queue] Codec not supported!'',
                             ''VideoFrameQueue setup error!''])"
proof -
  have d: "delete_frames 0 maxFrames (frames mem) h = Inr h"
    by (rule delete_frames_null [OF assms])
  show "VideoFrameQueue_createNew cData RAW maxFrames P_NONE ed es mem h
       = Inr (None, h, [''No pixel fromat defined'', ''VideoFrameQueue setup error!''])"
    using d by (simp add: VideoFrameQueue_createNew_def VideoFrameQueue_setup_def
        VideoFrameQueue_ctor_def AVFramedQueue_ctor_def AVFramedQueue_dtor_def)
  show "VideoFrameQueue_createNew cData codec_arg maxFrames pf ed es mem h
            = Inr (None, h, [''[Video Frame Queue] Codec not supported!'',
                             ''VideoFrameQueue setup error!''])"
    if "codec_arg \<notin> {H264, H265, VP8, RAW}"
    using d that by (cases codec_arg)
      (simp_all add: VideoFrameQueue_createNew_def VideoFrameQueue_setup_def
        VideoFrameQueue_ctor_def AVFramedQueue_ctor_def AVFramedQueue_dtor_def)
qed

lemma VideoFrameQueue_createNew_overrun:
  assumes "length (frames mem) < unat maxFrames"
  shows "\<exists>e. VideoFrameQueue_createNew cData RAW maxFrames P_NONE ed es mem h = Inl e"
proof -
  from delete_frames_overrun [of 0 "frames mem" maxFrames h] assms
  obtain e where "delete_frames 0 maxFrames (frames mem) h = Inl e"
    by auto
  then show ?thesis
    by (simp add: VideoFrameQueue_createNew_def VideoFrameQueue_setup_def
        VideoFrameQueue_ctor_def AVFramedQueue_ctor_def AVFramedQueue_dtor_def)
qed

section \<open>The properties\<close>

text \<open>
  C1. In every queue state that satisfies the invariant of the data model (so
  \<open>max \<ge> 2\<close>), \<^verbatim>\<open>forceGetRear\<close> returns, and returns a non-null frame pointer: at once and
  without a message when the queue is not full, after one \<^verbatim>\<open>flush\<close> and one message when
  it is full, that is when \<open>(rear + 1) mod max = front\<close>. In the full case the call
  decreases \<^verbatim>\<open>getElements()\<close> by exactly 1, as long as \<open>max \<le> 2 ^ 31\<close>, so that the sum
  \<^verbatim>\<open>rear + (max - 1)\<close> of \<^verbatim>\<open>flush\<close> does not wrap around.
\<close>

theorem forceGetRear_never_null:
  assumes "queue_inv q"
  shows "\<exists>a q' out. forceGetRear q = Some (Inr (Ptr a, q', out))
     \<and> ((rear q + 1) mod max_frames q \<noteq> front q \<longrightarrow> q' = q \<and> out = [])
     \<and> ((rear q + 1) mod max_frames q = front q \<longrightarrow>
          q' = q\<lparr>rear := (rear q + (max_frames q - 1)) mod max_frames q\<rparr>
          \<and> out = [discarded_msg]
          \<and> (max_frames q \<le> 2 ^ 31 \<longrightarrow> unat (getElements q') + 1 = unat (getElements q)))"
proof (cases "(rear q + 1) mod max_frames q = front q")
  case False
  have m: "max_frames q \<noteq> 0"
    by (rule queue_inv_max [OF assms])
  have r: "rear q < max_frames q"
    using assms by (simp add: queue_inv_def)
  from frames_at_inv [OF assms r] obtain a where
    a: "frames_at q (rear q) = Inr (Ptr a)"
    by blast
  have "forceGetRear q = Some (Inr (Ptr a, q, []))"
    using False m a by (simp add: forceGetRear_def forceGetRear_loop.simps getRear_def)
  then show ?thesis
    using False by simp
next
  case True
  let ?m = "max_frames q" and ?r = "rear q" and ?f = "front q"
  let ?p = "(?r + (?m - 1)) mod ?m"
  let ?q1 = "q\<lparr>rear := ?p\<rparr>"
  have m: "?m \<noteq> 0"
    by (rule queue_inv_max [OF assms])
  have r: "?r < ?m" and m2: "2 \<le> ?m"
    using assms by (simp_all add: queue_inv_def)
  have pm: "?p < ?m"
    using word_pos(2) [OF r] by (rule word_mod_less_divisor)
  have inv1: "queue_inv ?q1"
    using assms pm by (simp add: queue_inv_def)
  from frames_at_inv [OF inv1, of ?p] pm obtain a where
    a: "frames_at ?q1 ?p = Inr (Ptr a)"
    by auto
  have nf: "(?p + 1) mod ?m \<noteq> ?f"
  proof
    assume "(?p + 1) mod ?m = ?f"
    then have "(?p + 1) mod ?m = (?r + 1) mod ?m"
      using True by simp
    then have "?p = ?r"
      by (rule succ_mod_inj [OF pm r])
    then show False
      using flush_moves [OF r m2] by simp
  qed
  have g0: "getRear q = Inr NULL"
    using True m by (simp add: getRear_def)
  have fl: "flush q = Inr ?q1"
    using m by (simp add: flush_def)
  have g1: "getRear ?q1 = Inr (Ptr a)"
    using nf m a by (simp add: getRear_def)
  have l1: "forceGetRear_loop ?q1 [discarded_msg] = Some (Inr (Ptr a, ?q1, [discarded_msg]))"
    by (subst forceGetRear_loop.simps) (simp add: g1)
  have res: "forceGetRear q = Some (Inr (Ptr a, ?q1, [discarded_msg]))"
    unfolding forceGetRear_def by (subst forceGetRear_loop.simps) (simp add: g0 fl l1)
  have "unat (getElements ?q1) + 1 = unat (getElements q)" if b: "?m \<le> 2 ^ 31"
  proof -
    have "unat (getElements q) = unat ?m - 1"
      unfolding getElements_def by (rule full_elements(3) [OF r m2 True])
    moreover have "unat (getElements ?q1) = unat ?m - 2"
    proof -
      have "getElements ?q1 = (if ?f > ?p then ?m - ?f + ?p else ?p - ?f)"
        by (simp add: getElements_def)
      then show ?thesis
        by (simp only: flushed_elements [OF r m2 b True])
    qed
    moreover have "2 \<le> unat ?m"
      using m2 by (simp add: word_le_nat_alt)
    ultimately show ?thesis
      by simp
  qed
  then show ?thesis
    using res True by simp
qed

theorem forceGetRear_never_null_witness:
  "queue_inv mock4_full
     \<and> (rear mock4_full + 1) mod max_frames mock4_full = front mock4_full
     \<and> max_frames mock4_full \<le> 2 ^ 31
     \<and> (\<exists>a q'. forceGetRear mock4_full = Some (Inr (Ptr a, q', [discarded_msg]))
            \<and> unat (getElements q') + 1 = unat (getElements mock4_full))
     \<and> queue_inv mock4
     \<and> (rear mock4 + 1) mod max_frames mock4 \<noteq> front mock4
     \<and> (\<exists>a. forceGetRear mock4 = Some (Inr (Ptr a, mock4, [])))"
proof -
  have h: "queue_inv mock4_full"
    by code_simp
  have f: "(rear mock4_full + 1) mod max_frames mock4_full = front mock4_full"
    by (simp add: mock4_full_def mock4_def)
  have b: "max_frames mock4_full \<le> 2 ^ 31"
    by (simp add: mock4_full_def mock4_def)
  have n: "(rear mock4 + 1) mod max_frames mock4 \<noteq> front mock4"
    by (simp add: mock4_def)
  have 1: "\<exists>a q'. forceGetRear mock4_full = Some (Inr (Ptr a, q', [discarded_msg]))
            \<and> unat (getElements q') + 1 = unat (getElements mock4_full)"
    using forceGetRear_never_null [OF h] f b by blast
  have 2: "\<exists>a. forceGetRear mock4 = Some (Inr (Ptr a, mock4, []))"
    using forceGetRear_never_null [OF mock4_inv] n by blast
  show ?thesis
    using h f b n mock4_inv 1 2 by blast
qed



text \<open>
  C2. In every queue state that satisfies the invariant of the data model, \<^verbatim>\<open>getRear\<close>
  returns null if and only if the queue is full, that is \<open>(rear + 1) mod max = front\<close>,
  and otherwise returns the pre-allocated frame pointer \<^verbatim>\<open>frames[rear]\<close>. The call changes
  no queue state: \<^verbatim>\<open>getRear\<close> assigns no member, so its model returns the pointer only.
  In particular, in a queue with \<open>max = 4\<close> that is empty, after three \<^verbatim>\<open>addFrame\<close> the
  queue holds three frames and \<^verbatim>\<open>getRear\<close> returns null, and after one \<^verbatim>\<open>removeFrame\<close> it
  returns a frame.
\<close>

theorem getRear_null_iff_full:
  assumes "queue_inv q"
  shows "(getRear q = Inr NULL \<longleftrightarrow> (rear q + 1) mod max_frames q = front q)
     \<and> ((rear q + 1) mod max_frames q \<noteq> front q \<longrightarrow>
          getRear q = Inr (frames q ! unat (rear q)) \<and> frames q ! unat (rear q) \<noteq> NULL)
     \<and> (max_frames q = 4 \<and> front q = rear q \<longrightarrow>
          (\<exists>r1 q1 r2 q2 r3 q3 r4 q4 a.
             addFrame q = Inr (r1, q1) \<and> addFrame q1 = Inr (r2, q2) \<and> addFrame q2 = Inr (r3, q3)
             \<and> getElements q3 = 3 \<and> getRear q3 = Inr NULL
             \<and> removeFrame q3 = Inr (r4, q4) \<and> getRear q4 = Inr (Ptr a)))"
proof (intro conjI impI)
  have m: "max_frames q \<noteq> 0"
    by (rule queue_inv_max [OF assms])
  have r: "rear q < max_frames q"
    using assms by (simp add: queue_inv_def)
  from frames_at_inv [OF assms r] obtain a where
    a: "frames_at q (rear q) = Inr (Ptr a)" "frames q ! unat (rear q) = Ptr a"
    by blast
  show "getRear q = Inr NULL \<longleftrightarrow> (rear q + 1) mod max_frames q = front q"
    using m a by (simp add: getRear_def)
  show "getRear q = Inr (frames q ! unat (rear q))" if "(rear q + 1) mod max_frames q \<noteq> front q"
    using m a that by (simp add: getRear_def)
  show "frames q ! unat (rear q) \<noteq> NULL"
    using a by simp
next
  assume s: "max_frames q = 4 \<and> front q = rear q"
  then have "rear q < 4"
    using assms by (simp add: queue_inv_def)
  then have c: "rear q = 0 \<or> rear q = 1 \<or> rear q = 2 \<or> rear q = 3"
    by (rule less_4_cases)
  have len: "4 \<le> length (frames q)"
    using assms s by (simp add: queue_inv_def)
  have "\<And>i. i < 4 \<Longrightarrow> frames q ! i \<noteq> NULL"
    using assms s by (simp add: queue_inv_def)
  then have nn: "\<And>i. i < 4 \<Longrightarrow> \<exists>a. frames q ! i = Ptr a"
    by (metis ptr.exhaust)
  from nn [of 0] nn [of 1] nn [of 2] nn [of 3] obtain a0 a1 a2 a3 where
    "frames q ! 0 = Ptr a0" "frames q ! 1 = Ptr a1" "frames q ! 2 = Ptr a2" "frames q ! 3 = Ptr a3"
    by auto
  with c s len show "\<exists>r1 q1 r2 q2 r3 q3 r4 q4 a.
             addFrame q = Inr (r1, q1) \<and> addFrame q1 = Inr (r2, q2) \<and> addFrame q2 = Inr (r3, q3)
             \<and> getElements q3 = 3 \<and> getRear q3 = Inr NULL
             \<and> removeFrame q3 = Inr (r4, q4) \<and> getRear q4 = Inr (Ptr a)"
    by (auto simp: addFrame_def removeFrame_def getRear_def getElements_def frames_at_def)
qed

theorem getRear_null_iff_full_witness:
  "queue_inv mock4 \<and> max_frames mock4 = 4 \<and> front mock4 = rear mock4
     \<and> (rear mock4 + 1) mod max_frames mock4 \<noteq> front mock4
     \<and> getRear mock4 = Inr (frames mock4 ! unat (rear mock4))
     \<and> (\<exists>r1 q1 r2 q2 r3 q3 r4 q4 a.
             addFrame mock4 = Inr (r1, q1) \<and> addFrame q1 = Inr (r2, q2)
             \<and> addFrame q2 = Inr (r3, q3)
             \<and> getElements q3 = 3 \<and> getRear q3 = Inr NULL
             \<and> removeFrame q3 = Inr (r4, q4) \<and> getRear q4 = Inr (Ptr a))"
proof -
  have h: "queue_inv mock4"
    by (rule mock4_inv)
  have e: "max_frames mock4 = 4 \<and> front mock4 = rear mock4"
    by (simp add: mock4_def)
  have n: "(rear mock4 + 1) mod max_frames mock4 \<noteq> front mock4"
    by (simp add: mock4_def)
  show ?thesis
    using h e n getRear_null_iff_full [OF h] by blast
qed

text \<open>
  C3. In every queue state with \<open>front\<close>, \<open>rear\<close> in \<open>[0, max)\<close> and \<open>max \<ge> 2\<close>,
  \<^verbatim>\<open>getElements()\<close> equals \<open>(rear - front) mod max\<close>, and in every state reached from
  there by the producer/consumer protocol (\<^verbatim>\<open>addFrame\<close> only after a successful \<^verbatim>\<open>getRear\<close>,
  \<^verbatim>\<open>removeFrame\<close> only after a successful \<^verbatim>\<open>getFront\<close>) the same equation holds and
  \<^verbatim>\<open>getElements()\<close> is at most \<open>max - 1\<close>.
\<close>

theorem getElements_capacity:
  assumes "2 \<le> max_frames q0" and "front q0 < max_frames q0" and "rear q0 < max_frames q0"
  shows "uint (getElements q0) = (uint (rear q0) - uint (front q0)) mod uint (max_frames q0)
     \<and> (\<forall>q. protocol q0 q \<longrightarrow>
           getElements q \<le> max_frames q - 1
           \<and> uint (getElements q) = (uint (rear q) - uint (front q)) mod uint (max_frames q))"
proof (intro conjI allI impI)
  show "uint (getElements q0) = (uint (rear q0) - uint (front q0)) mod uint (max_frames q0)"
    unfolding getElements_def by (rule elements_uint [OF assms(2,3)])
next
  fix q
  assume "protocol q0 q"
  from protocol_range [OF this assms(2,3)]
  have f: "front q < max_frames q" and r: "rear q < max_frames q"
    by blast+
  show "getElements q \<le> max_frames q - 1"
    unfolding getElements_def by (rule elements_le [OF f r])
  show "uint (getElements q) = (uint (rear q) - uint (front q)) mod uint (max_frames q)"
    unfolding getElements_def by (rule elements_uint [OF f r])
qed

theorem getElements_capacity_witness:
  "2 \<le> max_frames mock4 \<and> front mock4 < max_frames mock4 \<and> rear mock4 < max_frames mock4
     \<and> protocol mock4 mock4_one
     \<and> getElements mock4_one \<le> max_frames mock4_one - 1
     \<and> uint (getElements mock4_one)
           = (uint (rear mock4_one) - uint (front mock4_one)) mod uint (max_frames mock4_one)
     \<and> uint (getElements mock4) = (uint (rear mock4) - uint (front mock4)) mod uint (max_frames mock4)"
proof -
  have h: "2 \<le> max_frames mock4" "front mock4 < max_frames mock4" "rear mock4 < max_frames mock4"
    by (simp_all add: mock4_def)
  have g: "getRear mock4 = Inr (Ptr 0)"
    by (simp add: getRear_def frames_at_def mock4_def)
  have a: "addFrame mock4 = Inr (2, mock4_one)"
    by (simp add: addFrame_def mock4_one_def mock4_def example_cData_def)
  have p: "protocol mock4 mock4_one"
    by (rule protocol.produce [OF protocol.start g a])
  show ?thesis
    using h p getElements_capacity [OF h] by blast
qed

text \<open>
  C5, as amended. In every queue state with \<open>max \<noteq> 0\<close>, \<^verbatim>\<open>addFrame\<close> advances \<open>rear\<close> by
  exactly 1 modulo \<open>max\<close>, leaves \<open>front\<close>, \<open>max\<close>, the connection data and the frames
  array unchanged, and returns \<^verbatim>\<open>connectionData.rFilterId\<close>: the id of the filter that
  reads from the queue, not of the filter that writes to it.
\<close>

theorem addFrame_advances_rear:
  assumes "max_frames q \<noteq> 0"
  shows "\<exists>q'. addFrame q = Inr (rFilterId (connectionData q), q')
     \<and> rear q' = (rear q + 1) mod max_frames q
     \<and> front q' = front q \<and> frames q' = frames q \<and> max_frames q' = max_frames q
     \<and> connectionData q' = connectionData q
     \<and> (rear q < max_frames q \<longrightarrow> uint (rear q') = (uint (rear q) + 1) mod uint (max_frames q))"
  using assms by (simp add: addFrame_def succ_mod_uint)

theorem addFrame_advances_rear_witness:
  "max_frames mock4 \<noteq> 0 \<and> rear mock4 < max_frames mock4
     \<and> (\<exists>q'. addFrame mock4 = Inr (rFilterId (connectionData mock4), q')
            \<and> rear q' = (rear mock4 + 1) mod max_frames mock4
            \<and> front q' = front mock4 \<and> frames q' = frames mock4
            \<and> uint (rear q') = (uint (rear mock4) + 1) mod uint (max_frames mock4))"
proof -
  have h: "max_frames mock4 \<noteq> 0"
    by (simp add: mock4_def)
  have r: "rear mock4 < max_frames mock4"
    by (simp add: mock4_def)
  show ?thesis
    using h r addFrame_advances_rear [OF h] by blast
qed

text \<open>
  The claim C5 as it was stated, that \<^verbatim>\<open>addFrame\<close> returns the id of the writer filter,
  fails on the queue of the unit tests with the connection
  \<open>wFilterId = 1, rFilterId = 2\<close>: the call returns 2.
\<close>

theorem addFrame_returns_writer_counterexample:
  "addFrame mock4 = Inr (2, mock4_one) \<and> wFilterId (connectionData mock4) = 1"
  by (simp add: addFrame_def mock4_one_def mock4_def example_cData_def)

text \<open>
  C6, as amended. In every queue state with \<open>max \<noteq> 0\<close>, \<^verbatim>\<open>removeFrame\<close> advances \<open>front\<close>
  by exactly 1 modulo \<open>max\<close>, leaves \<open>rear\<close>, \<open>max\<close>, the connection data and the frames
  array unchanged, and returns \<^verbatim>\<open>connectionData.wFilterId\<close>: the id of the filter that
  writes to the queue, not the \<open>readerId\<close> of the connection.
\<close>

theorem removeFrame_advances_front:
  assumes "max_frames q \<noteq> 0"
  shows "\<exists>q'. removeFrame q = Inr (wFilterId (connectionData q), q')
     \<and> front q' = (front q + 1) mod max_frames q
     \<and> rear q' = rear q \<and> frames q' = frames q \<and> max_frames q' = max_frames q
     \<and> connectionData q' = connectionData q
     \<and> (front q < max_frames q \<longrightarrow> uint (front q') = (uint (front q) + 1) mod uint (max_frames q))"
  using assms by (simp add: removeFrame_def succ_mod_uint)

theorem removeFrame_advances_front_witness:
  "max_frames mock4_one \<noteq> 0 \<and> front mock4_one < max_frames mock4_one
     \<and> (\<exists>q'. removeFrame mock4_one = Inr (wFilterId (connectionData mock4_one), q')
            \<and> front q' = (front mock4_one + 1) mod max_frames mock4_one
            \<and> rear q' = rear mock4_one \<and> frames q' = frames mock4_one
            \<and> uint (front q') = (uint (front mock4_one) + 1) mod uint (max_frames mock4_one))"
proof -
  have h: "max_frames mock4_one \<noteq> 0"
    by (simp add: mock4_one_def mock4_def)
  have r: "front mock4_one < max_frames mock4_one"
    by (simp add: mock4_one_def mock4_def)
  show ?thesis
    using h r removeFrame_advances_front [OF h] by blast
qed

text \<open>
  The claim C6 as it was stated, that \<^verbatim>\<open>removeFrame\<close> returns the \<open>readerId\<close> of the
  connection, fails on the queue of the unit tests with the connection
  \<open>wFilterId = 1, readerId = 4\<close>: the call returns 1.
\<close>

theorem removeFrame_returns_readerId_counterexample:
  "removeFrame mock4_one = Inr (1, mock4_one\<lparr>front := 1\<rparr>)
     \<and> readerId (connectionData mock4_one) = 4"
  by (simp add: removeFrame_def mock4_one_def mock4_def example_cData_def)

text \<open>
  C7. In every queue state that satisfies the invariant, with \<open>max \<le> 2 ^ 31\<close> so that
  the sum \<^verbatim>\<open>front + (max - 1)\<close> does not wrap around: when \<^verbatim>\<open>getFront\<close> has returned a frame
  and \<^verbatim>\<open>removeFrame\<close> has released it, \<^verbatim>\<open>forceGetFront\<close> returns the same pointer, which is
  \<^verbatim>\<open>frames[(front + max - 1) mod max]\<close>. This holds whether or not the queue is empty
  after the \<^verbatim>\<open>removeFrame\<close>, so in particular when all frames have been consumed.
\<close>

theorem forceGetFront_last_delivered:
  assumes "queue_inv q" and "max_frames q \<le> 2 ^ 31"
    and "getFront q = Inr (Ptr a)" and "removeFrame q = Inr (r, q')"
  shows "forceGetFront q' = Inr (Ptr a)
     \<and> frames q' ! unat ((front q' + (max_frames q' - 1)) mod max_frames q') = Ptr a"
proof -
  have m: "max_frames q \<noteq> 0"
    by (rule queue_inv_max [OF assms(1)])
  have f: "front q < max_frames q"
    using assms(1) by (simp add: queue_inv_def)
  have qd: "q' = q\<lparr>front := (front q + 1) mod max_frames q\<rparr>"
    using assms(4) m by (simp add: removeFrame_def)
  have prev: "(front q' + (max_frames q' - 1)) mod max_frames q' = front q"
    using pred_succ_mod [OF f assms(2)] by (simp add: qd)
  from frames_at_inv [OF assms(1) f] obtain b where
    b: "frames_at q (front q) = Inr (Ptr b)" "frames q ! unat (front q) = Ptr b"
    by blast
  have "rear q \<noteq> front q"
    using assms(3) by (auto simp: getFront_def)
  then have "b = a"
    using assms(3) b by (simp add: getFront_def)
  moreover have "frames_at q' (front q) = frames_at q (front q)"
    by (simp add: frames_at_def qd)
  ultimately show ?thesis
    using b m prev by (simp add: forceGetFront_def qd)
qed

theorem forceGetFront_last_delivered_witness:
  "queue_inv mock4_one \<and> max_frames mock4_one \<le> 2 ^ 31
     \<and> getFront mock4_one = Inr (Ptr 0)
     \<and> removeFrame mock4_one = Inr (1, mock4_one\<lparr>front := 1\<rparr>)
     \<and> getElements (mock4_one\<lparr>front := 1\<rparr>) = 0
     \<and> front (mock4_one\<lparr>front := 1\<rparr>) = rear (mock4_one\<lparr>front := 1\<rparr>)
     \<and> forceGetFront (mock4_one\<lparr>front := 1\<rparr>) = Inr (Ptr 0)"
proof -
  have h: "queue_inv mock4_one"
    by code_simp
  have b: "max_frames mock4_one \<le> 2 ^ 31"
    by (simp add: mock4_one_def mock4_def)
  have g: "getFront mock4_one = Inr (Ptr 0)"
    by (simp add: getFront_def frames_at_def mock4_one_def mock4_def)
  have r: "removeFrame mock4_one = Inr (1, mock4_one\<lparr>front := 1\<rparr>)"
    by (simp add: removeFrame_def mock4_one_def mock4_def example_cData_def)
  have e: "getElements (mock4_one\<lparr>front := 1\<rparr>) = 0
      \<and> front (mock4_one\<lparr>front := 1\<rparr>) = rear (mock4_one\<lparr>front := 1\<rparr>)"
    by (simp add: getElements_def mock4_one_def mock4_def)
  show ?thesis
    using h b g r e forceGetFront_last_delivered [OF h b g r] by blast
qed

text \<open>
  C10. \<^verbatim>\<open>removeFrame\<close> performs no emptiness check: in every queue state that is empty
  (\<open>front = rear\<close>, inside the ring), \<^verbatim>\<open>removeFrame\<close> returns the filter id as usual, no
  error, and advances \<open>front\<close> past \<open>rear\<close>, so that afterwards \<^verbatim>\<open>getElements()\<close> is
  \<open>max - 1\<close>.
\<close>

theorem removeFrame_on_empty:
  assumes "front q < max_frames q" and "front q = rear q"
  shows "\<exists>q'. removeFrame q = Inr (wFilterId (connectionData q), q')
     \<and> front q' = (front q + 1) mod max_frames q \<and> rear q' = rear q
     \<and> getElements q' = max_frames q - 1"
proof -
  let ?m = "max_frames q" and ?r = "rear q"
  let ?q' = "q\<lparr>front := (front q + 1) mod ?m\<rparr>"
  have r: "?r < ?m"
    using assms by simp
  have m: "?m \<noteq> 0"
    using assms(1) by (metis word_pos(1))
  have "getElements ?q' = ?m - 1"
  proof (cases "?r + 1 = ?m")
    case True
    then have "(?r + 1) mod ?m = 0" by simp
    moreover from True have "?m - 1 = ?r"
      by (metis add_diff_cancel_right')
    ultimately show ?thesis
      using assms(2) by (simp add: getElements_def)
  next
    case False
    then have s: "(?r + 1) mod ?m = ?r + 1"
      by (simp add: succ_mod [OF r])
    have "unat (?r + 1) = unat ?r + 1"
      by (rule succ_no_wrap [OF r])
    then have "?r < ?r + 1"
      by (simp add: word_less_nat_alt)
    then show ?thesis
      using assms(2) s by (simp add: getElements_def)
  qed
  then show ?thesis
    using m by (simp add: removeFrame_def)
qed

theorem removeFrame_on_empty_witness:
  "front mock4 < max_frames mock4 \<and> front mock4 = rear mock4 \<and> getElements mock4 = 0
     \<and> (\<exists>q'. removeFrame mock4 = Inr (wFilterId (connectionData mock4), q')
            \<and> getElements q' = 3)"
proof -
  have h: "front mock4 < max_frames mock4" "front mock4 = rear mock4"
    by (simp_all add: mock4_def)
  have e: "getElements mock4 = 0"
    by (simp add: getElements_def mock4_def)
  have m: "max_frames mock4 - 1 = 3"
    by (simp add: mock4_def)
  show ?thesis
    using h e removeFrame_on_empty [OF h] unfolding m by blast
qed

text \<open>
  C4. Drop-newest keeps the oldest frames. In every queue with \<open>max = 4\<close> that satisfies
  the invariant and is full with frames of the sequence numbers 1, 2, 3 from front to
  rear, wherever in the ring the front is, \<^verbatim>\<open>forceGetRear\<close> writes one message and returns
  the slot of the newest frame; it leaves \<^verbatim>\<open>getElements() = 2\<close> and the contents 1, 2 in
  this order. Writing the sequence number 4 into the returned slot and calling \<^verbatim>\<open>addFrame\<close>
  gives three elements with the contents 1, 2, 4.
\<close>

theorem drop_newest_keeps_oldest:
  assumes "queue_inv q" and "max_frames q = 4"
    and "(rear q + 1) mod max_frames q = front q"
    and "contents q h = Some [1, 2, 3]"
  shows "\<exists>a q1 h' r q2.
       forceGetRear q = Some (Inr (Ptr a, q1, [discarded_msg]))
     \<and> getElements q1 = 2 \<and> contents q1 h = Some [1, 2]
     \<and> setSequenceNumber h a 4 = Inr h'
     \<and> addFrame q1 = Inr (r, q2)
     \<and> getElements q2 = 3 \<and> contents q2 h' = Some [1, 2, 4]"
proof -
  have "rear q < 4"
    using assms(1,2) by (simp add: queue_inv_def)
  then have c: "rear q = 0 \<or> rear q = 1 \<or> rear q = 2 \<or> rear q = 3"
    by (rule less_4_cases)
  have len: "4 \<le> length (frames q)" "frames q \<noteq> []"
    using four_slots(1) [OF assms(1,2)] by auto
  from four_slots(2) [OF assms(1,2)] obtain a0 a1 a2 a3 where
    fr: "frames q ! 0 = Ptr a0" "frames q ! Suc 0 = Ptr a1" "frames q ! 2 = Ptr a2"
      "frames q ! 3 = Ptr a3"
    by auto
  have cq: "contents q h = received (Suc (Suc (Suc (Suc 0)))) q h"
    by (rule contents_4 [OF assms(2)])
  have cr: "contents (q\<lparr>rear := x\<rparr>) k = received (Suc (Suc (Suc (Suc 0)))) (q\<lparr>rear := x\<rparr>) k"
    for x k
    using assms(2) by (simp add: contents_4)
  from c show ?thesis
  proof (elim disjE)
    assume r: "rear q = 0"
    then have f: "front q = 1"
      using assms(2,3) by simp
    have "\<exists>x y z. live h a1 = Some x \<and> sequenceNumber x = 1
        \<and> live h a2 = Some y \<and> sequenceNumber y = 2
        \<and> live h a3 = Some z \<and> sequenceNumber z = 3"
      using assms(4) len unfolding cq
      by (auto simp: r f assms(2) fr getFront_def removeFrame_def frames_at_def
          getSequenceNumber_def split: option.splits sum.splits if_splits)
    then obtain x y z where
      lv: "live h a1 = Some x" "live h a2 = Some y" "live h a3 = Some z" and
      sq: "sequenceNumber x = 1" "sequenceNumber y = 2" "sequenceNumber z = 3"
      by blast
    have ne: "a1 \<noteq> a3" "a2 \<noteq> a3"
      using lv sq by auto
    define h' where "h' = h[a3 := Some (z\<lparr>sequenceNumber := 4\<rparr>)]"
    have lv': "live h' a1 = Some x" "live h' a2 = Some y"
      "live h' a3 = Some (z\<lparr>sequenceNumber := 4\<rparr>)"
      using lv ne by (simp_all add: h'_def live_update)
    have g1: "forceGetRear q = Some (Inr (Ptr a3, q\<lparr>rear := 3\<rparr>, [discarded_msg]))"
      unfolding forceGetRear_def
      apply (subst forceGetRear_loop.simps)
      apply (subst forceGetRear_loop.simps)
      using len by (simp add: r f assms(2) fr getRear_def flush_def frames_at_def)
    have g2: "getElements (q\<lparr>rear := 3\<rparr>) = 2"
      using f assms(2) by (simp add: getElements_def)
    have g3: "contents (q\<lparr>rear := 3\<rparr>) h = Some [1, 2]"
      unfolding cr using len
      by (simp add: f assms(2) fr lv sq getFront_def removeFrame_def frames_at_def
          getSequenceNumber_def)
    have g4: "setSequenceNumber h a3 4 = Inr h'"
      using lv by (simp add: setSequenceNumber_def h'_def)
    have g5: "addFrame (q\<lparr>rear := 3\<rparr>) = Inr (rFilterId (connectionData q), q\<lparr>rear := 0\<rparr>)"
      using assms(2) by (simp add: addFrame_def)
    have g6: "getElements (q\<lparr>rear := 0\<rparr>) = 3"
      using f assms(2) by (simp add: getElements_def)
    have g7: "contents (q\<lparr>rear := 0\<rparr>) h' = Some [1, 2, 4]"
      unfolding cr using len
      by (simp add: f assms(2) fr lv' sq getFront_def removeFrame_def frames_at_def
          getSequenceNumber_def)
    show ?thesis
      using g1 g2 g3 g4 g5 g6 g7 by blast
  next
    assume r: "rear q = 1"
    then have f: "front q = 2"
      using assms(2,3) by simp
    have "\<exists>x y z. live h a2 = Some x \<and> sequenceNumber x = 1
        \<and> live h a3 = Some y \<and> sequenceNumber y = 2
        \<and> live h a0 = Some z \<and> sequenceNumber z = 3"
      using assms(4) len unfolding cq
      by (auto simp: r f assms(2) fr getFront_def removeFrame_def frames_at_def
          getSequenceNumber_def split: option.splits sum.splits if_splits)
    then obtain x y z where
      lv: "live h a2 = Some x" "live h a3 = Some y" "live h a0 = Some z" and
      sq: "sequenceNumber x = 1" "sequenceNumber y = 2" "sequenceNumber z = 3"
      by blast
    have ne: "a2 \<noteq> a0" "a3 \<noteq> a0"
      using lv sq by auto
    define h' where "h' = h[a0 := Some (z\<lparr>sequenceNumber := 4\<rparr>)]"
    have lv': "live h' a2 = Some x" "live h' a3 = Some y"
      "live h' a0 = Some (z\<lparr>sequenceNumber := 4\<rparr>)"
      using lv ne by (simp_all add: h'_def live_update)
    have g1: "forceGetRear q = Some (Inr (Ptr a0, q\<lparr>rear := 0\<rparr>, [discarded_msg]))"
      unfolding forceGetRear_def
      apply (subst forceGetRear_loop.simps)
      apply (subst forceGetRear_loop.simps)
      using len by (simp add: r f assms(2) fr getRear_def flush_def frames_at_def)
    have g2: "getElements (q\<lparr>rear := 0\<rparr>) = 2"
      using f assms(2) by (simp add: getElements_def)
    have g3: "contents (q\<lparr>rear := 0\<rparr>) h = Some [1, 2]"
      unfolding cr using len
      by (simp add: f assms(2) fr lv sq getFront_def removeFrame_def frames_at_def
          getSequenceNumber_def)
    have g4: "setSequenceNumber h a0 4 = Inr h'"
      using lv by (simp add: setSequenceNumber_def h'_def)
    have g5: "addFrame (q\<lparr>rear := 0\<rparr>) = Inr (rFilterId (connectionData q), q\<lparr>rear := 1\<rparr>)"
      using assms(2) by (simp add: addFrame_def)
    have g6: "getElements (q\<lparr>rear := 1\<rparr>) = 3"
      using f assms(2) by (simp add: getElements_def)
    have g7: "contents (q\<lparr>rear := 1\<rparr>) h' = Some [1, 2, 4]"
      unfolding cr using len
      by (simp add: f assms(2) fr lv' sq getFront_def removeFrame_def frames_at_def
          getSequenceNumber_def)
    show ?thesis
      using g1 g2 g3 g4 g5 g6 g7 by blast
  next
    assume r: "rear q = 2"
    then have f: "front q = 3"
      using assms(2,3) by simp
    have "\<exists>x y z. live h a3 = Some x \<and> sequenceNumber x = 1
        \<and> live h a0 = Some y \<and> sequenceNumber y = 2
        \<and> live h a1 = Some z \<and> sequenceNumber z = 3"
      using assms(4) len unfolding cq
      by (auto simp: r f assms(2) fr getFront_def removeFrame_def frames_at_def
          getSequenceNumber_def split: option.splits sum.splits if_splits)
    then obtain x y z where
      lv: "live h a3 = Some x" "live h a0 = Some y" "live h a1 = Some z" and
      sq: "sequenceNumber x = 1" "sequenceNumber y = 2" "sequenceNumber z = 3"
      by blast
    have ne: "a3 \<noteq> a1" "a0 \<noteq> a1"
      using lv sq by auto
    define h' where "h' = h[a1 := Some (z\<lparr>sequenceNumber := 4\<rparr>)]"
    have lv': "live h' a3 = Some x" "live h' a0 = Some y"
      "live h' a1 = Some (z\<lparr>sequenceNumber := 4\<rparr>)"
      using lv ne by (simp_all add: h'_def live_update)
    have g1: "forceGetRear q = Some (Inr (Ptr a1, q\<lparr>rear := 1\<rparr>, [discarded_msg]))"
      unfolding forceGetRear_def
      apply (subst forceGetRear_loop.simps)
      apply (subst forceGetRear_loop.simps)
      using len by (simp add: r f assms(2) fr getRear_def flush_def frames_at_def)
    have g2: "getElements (q\<lparr>rear := 1\<rparr>) = 2"
      using f assms(2) by (simp add: getElements_def)
    have g3: "contents (q\<lparr>rear := 1\<rparr>) h = Some [1, 2]"
      unfolding cr using len
      by (simp add: f assms(2) fr lv sq getFront_def removeFrame_def frames_at_def
          getSequenceNumber_def)
    have g4: "setSequenceNumber h a1 4 = Inr h'"
      using lv by (simp add: setSequenceNumber_def h'_def)
    have g5: "addFrame (q\<lparr>rear := 1\<rparr>) = Inr (rFilterId (connectionData q), q\<lparr>rear := 2\<rparr>)"
      using assms(2) by (simp add: addFrame_def)
    have g6: "getElements (q\<lparr>rear := 2\<rparr>) = 3"
      using f assms(2) by (simp add: getElements_def)
    have g7: "contents (q\<lparr>rear := 2\<rparr>) h' = Some [1, 2, 4]"
      unfolding cr using len
      by (simp add: f assms(2) fr lv' sq getFront_def removeFrame_def frames_at_def
          getSequenceNumber_def)
    show ?thesis
      using g1 g2 g3 g4 g5 g6 g7 by blast
  next
    assume r: "rear q = 3"
    then have f: "front q = 0"
      using assms(2,3) by simp
    have "\<exists>x y z. live h a0 = Some x \<and> sequenceNumber x = 1
        \<and> live h a1 = Some y \<and> sequenceNumber y = 2
        \<and> live h a2 = Some z \<and> sequenceNumber z = 3"
      using assms(4) len unfolding cq
      by (auto simp: r f assms(2) fr getFront_def removeFrame_def frames_at_def
          getSequenceNumber_def split: option.splits sum.splits if_splits)
    then obtain x y z where
      lv: "live h a0 = Some x" "live h a1 = Some y" "live h a2 = Some z" and
      sq: "sequenceNumber x = 1" "sequenceNumber y = 2" "sequenceNumber z = 3"
      by blast
    have ne: "a0 \<noteq> a2" "a1 \<noteq> a2"
      using lv sq by auto
    define h' where "h' = h[a2 := Some (z\<lparr>sequenceNumber := 4\<rparr>)]"
    have lv': "live h' a0 = Some x" "live h' a1 = Some y"
      "live h' a2 = Some (z\<lparr>sequenceNumber := 4\<rparr>)"
      using lv ne by (simp_all add: h'_def live_update)
    have g1: "forceGetRear q = Some (Inr (Ptr a2, q\<lparr>rear := 2\<rparr>, [discarded_msg]))"
      unfolding forceGetRear_def
      apply (subst forceGetRear_loop.simps)
      apply (subst forceGetRear_loop.simps)
      using len by (simp add: r f assms(2) fr getRear_def flush_def frames_at_def)
    have g2: "getElements (q\<lparr>rear := 2\<rparr>) = 2"
      using f assms(2) by (simp add: getElements_def)
    have g3: "contents (q\<lparr>rear := 2\<rparr>) h = Some [1, 2]"
      unfolding cr using len
      by (simp add: f assms(2) fr lv sq getFront_def removeFrame_def frames_at_def
          getSequenceNumber_def)
    have g4: "setSequenceNumber h a2 4 = Inr h'"
      using lv by (simp add: setSequenceNumber_def h'_def)
    have g5: "addFrame (q\<lparr>rear := 2\<rparr>) = Inr (rFilterId (connectionData q), q\<lparr>rear := 3\<rparr>)"
      using assms(2) by (simp add: addFrame_def)
    have g6: "getElements (q\<lparr>rear := 3\<rparr>) = 3"
      using f assms(2) by (simp add: getElements_def)
    have g7: "contents (q\<lparr>rear := 3\<rparr>) h' = Some [1, 2, 4]"
      unfolding cr using len
      by (simp add: f assms(2) fr lv' sq getFront_def removeFrame_def frames_at_def
          getSequenceNumber_def)
    show ?thesis
      using g1 g2 g3 g4 g5 g6 g7 by blast
  qed
qed


theorem drop_newest_keeps_oldest_witness:
  "queue_inv mock4_full \<and> max_frames mock4_full = 4
     \<and> (rear mock4_full + 1) mod max_frames mock4_full = front mock4_full
     \<and> contents mock4_full mock4_heap = Some [1, 2, 3]
     \<and> (\<exists>a q1 h' r q2.
            forceGetRear mock4_full = Some (Inr (Ptr a, q1, [discarded_msg]))
          \<and> getElements q1 = 2 \<and> contents q1 mock4_heap = Some [1, 2]
          \<and> setSequenceNumber mock4_heap a 4 = Inr h'
          \<and> addFrame q1 = Inr (r, q2)
          \<and> getElements q2 = 3 \<and> contents q2 h' = Some [1, 2, 4])
     \<and> queue_inv mock4_wrapped \<and> max_frames mock4_wrapped = 4
     \<and> (rear mock4_wrapped + 1) mod max_frames mock4_wrapped = front mock4_wrapped
     \<and> contents mock4_wrapped mock4_wrapped_heap = Some [1, 2, 3]
     \<and> (\<exists>a q1 h' r q2.
            forceGetRear mock4_wrapped = Some (Inr (Ptr a, q1, [discarded_msg]))
          \<and> getElements q1 = 2 \<and> contents q1 mock4_wrapped_heap = Some [1, 2]
          \<and> setSequenceNumber mock4_wrapped_heap a 4 = Inr h'
          \<and> addFrame q1 = Inr (r, q2)
          \<and> getElements q2 = 3 \<and> contents q2 h' = Some [1, 2, 4])"
proof -
  have f1: "queue_inv mock4_full"
    by code_simp
  have f2: "max_frames mock4_full = 4"
    by code_simp
  have f3: "(rear mock4_full + 1) mod max_frames mock4_full = front mock4_full"
    by code_simp
  have f4: "contents mock4_full mock4_heap = Some [1, 2, 3]"
    by code_simp
  have w1: "queue_inv mock4_wrapped"
    by code_simp
  have w2: "max_frames mock4_wrapped = 4"
    by code_simp
  have w3: "(rear mock4_wrapped + 1) mod max_frames mock4_wrapped = front mock4_wrapped"
    by code_simp
  have w4: "contents mock4_wrapped mock4_wrapped_heap = Some [1, 2, 3]"
    by code_simp
  show ?thesis
    using f1 f2 f3 f4 w1 w2 w3 w4
      drop_newest_keeps_oldest [OF f1 f2 f3 f4] drop_newest_keeps_oldest [OF w1 w2 w3 w4]
    by blast
qed

text \<open>
  C8. The claim is that \<^verbatim>\<open>VideoFrameQueue::createNew\<close> with the codec \<open>RAW\<close> and the pixel
  format \<open>P_NONE\<close>, or with a codec outside \<open>{H264, H265, VP8, RAW}\<close>, fails in \<^verbatim>\<open>setup\<close>
  and returns null, for every connection and every \<^verbatim>\<open>maxFrames\<close>. \<^verbatim>\<open>setup\<close> does fail, but
  before \<^verbatim>\<open>return NULL\<close> the call \<^verbatim>\<open>delete q\<close> runs the destructor over \<^verbatim>\<open>frames[0..max)\<close>,
  which nothing has assigned. With \<open>maxFrames = 4\<close> and a new object whose first cell holds
  a stale pointer the destructor deletes that pointer, for either kind of failure of
  \<^verbatim>\<open>setup\<close>; with \<open>maxFrames = 4294967295\<close> it reads past an array of eight cells. On
  storage whose cells are null the call returns null.
\<close>

theorem VideoFrameQueue_createNew_deletes_unassigned_frames:
  "VideoFrameQueue_createNew example_cData RAW 4 P_NONE NULL 0 stale_video_mem []
       = Inl InvalidPointer
     \<and> VideoFrameQueue_createNew example_cData (VCodecOther 0) 4 YUV420P NULL 0 stale_video_mem []
       = Inl InvalidPointer
     \<and> VideoFrameQueue_createNew example_cData RAW 4294967295 P_NONE NULL 0 example_video_mem []
       = Inl OutOfBounds
     \<and> VideoFrameQueue_createNew example_cData RAW 4 P_NONE NULL 0 example_video_mem []
       = Inr (None, [], [''No pixel fromat defined'', ''VideoFrameQueue setup error!''])"
proof (intro conjI)
  show "VideoFrameQueue_createNew example_cData RAW 4 P_NONE NULL 0 stale_video_mem []
       = Inl InvalidPointer"
    by code_simp
  show "VideoFrameQueue_createNew example_cData (VCodecOther 0) 4 YUV420P NULL 0 stale_video_mem []
       = Inl InvalidPointer"
    by code_simp
  show "VideoFrameQueue_createNew example_cData RAW 4294967295 P_NONE NULL 0 example_video_mem []
       = Inl OutOfBounds"
    by code_simp
  show "VideoFrameQueue_createNew example_cData RAW 4 P_NONE NULL 0 example_video_mem []
       = Inr (None, [], [''No pixel fromat defined'', ''VideoFrameQueue setup error!''])"
    by code_simp
qed

text \<open>
  C9. For every connection, sample rate and channel count, and for every requested
  sample format, \<^verbatim>\<open>AudioFrameQueue::createNew\<close> with the codec \<open>OPUS\<close>, \<open>AAC\<close> or \<open>MP3\<close>
  succeeds, provided the array \<^verbatim>\<open>frames\<close> has room for \<^verbatim>\<open>maxFrames\<close> frames, and the sample
  format of the new queue is \<open>S16\<close>; so it is when \<open>FLT\<close> was requested.
\<close>

theorem AudioFrameQueue_createNew_forces_S16:
  assumes "codec_arg \<in> {OPUS, AAC, MP3}" and "unat maxFrames \<le> length (frames mem)"
  shows "\<exists>q h'. AudioFrameQueue_createNew getMaxSamples cData codec_arg maxFrames sampleRate_arg
                   channels_arg sFmt ed es mem h = Inr (Some q, h', [])
     \<and> sampleFormat q = S16 \<and> AudioFrameQueue.codec q = codec_arg
     \<and> sampleRate q = sampleRate_arg \<and> channels q = channels_arg
     \<and> max_frames q = maxFrames \<and> connectionData q = cData
     \<and> extradata q = ed \<and> extradata_size q = es"
proof -
  let ?q0 = "AudioFrameQueue_ctor cData codec_arg maxFrames sFmt sampleRate_arg channels_arg mem"
  let ?q1 = "?q0\<lparr>sampleFormat := S16\<rparr>"
  let ?mk = "\<lambda>i::unsigned. \<lparr>made_by = InterleavedAudioFrame (channels ?q1) (sampleRate ?q1)
                (getMaxSamples (sampleRate ?q1)) (AudioFrameQueue.codec ?q1) (sampleFormat ?q1),
              sequenceNumber = 0\<rparr>"
  have "unat (max_frames ?q1) \<le> length (frames ?q1)"
    using assms(2) by (simp add: AudioFrameQueue_ctor_def AVFramedQueue_ctor_def)
  from fill_frames_ok [OF this, of ?mk 0 h] obtain arr h' where
    f: "fill_frames ?mk 0 (max_frames ?q1) (frames ?q1) h = Inr (arr, h')"
    by blast
  have a: "audio_frames getMaxSamples False ?q1 h = Inr (True, ?q1\<lparr>frames := arr\<rparr>, h', [])"
    using f by (simp add: audio_frames_def)
  have s: "AudioFrameQueue_setup getMaxSamples ?q0 h = Inr (True, ?q1\<lparr>frames := arr\<rparr>, h', [])"
    using assms(1) a
    by (auto simp: AudioFrameQueue_setup_def AudioFrameQueue_ctor_def AVFramedQueue_ctor_def)
  show ?thesis
    unfolding AudioFrameQueue_createNew_def s
    by (simp add: AudioFrameQueue_ctor_def AVFramedQueue_ctor_def)
qed

theorem AudioFrameQueue_createNew_forces_S16_witness:
  "OPUS \<in> {OPUS, AAC, MP3} \<and> unat (4 :: unsigned) \<le> length (frames example_audio_mem)
     \<and> (\<exists>q h'. AudioFrameQueue_createNew (\<lambda>r. r) example_cData OPUS 4 48000 2 FLT NULL 0
                    example_audio_mem [] = Inr (Some q, h', [])
            \<and> sampleFormat q = S16)"
proof -
  have c: "OPUS \<in> {OPUS, AAC, MP3}"
    by simp
  have l: "unat (4 :: unsigned) \<le> length (frames example_audio_mem)"
    by (simp add: example_audio_mem_def)
  show ?thesis
    using c l AudioFrameQueue_createNew_forces_S16
      [OF c l, where getMaxSamples = "\<lambda>r. r" and cData = example_cData
         and sampleRate_arg = 48000 and channels_arg = 2 and sFmt = FLT and ed = NULL
         and es = 0 and h = "[]"]
    by blast
qed

end
